theory Spec2Isabelle
  imports Complex_Main "HOL-Library.AList"
begin

section \<open>Numbers and instants\<close>

text \<open>
  The model follows \<open>src/App.jsx\<close> (the component \<open>GPTDeadlineApp\<close> and its helpers).

  Instants are epoch milliseconds (\<open>DateTime.toMillis()\<close>): integers for every DateTime
  that is parsed from an ISO string, read from the clock, or moved by whole calendar units
  or whole seconds. Comparisons of DateTimes (\<open>now < start\<close>, \<open>now >= end\<close>) compare
  these numbers. Only valid DateTimes are modelled; an ISO string stands for the instant it
  denotes, and the ends of the JavaScript Date range are left out.

  A JavaScript number that results from a division is modelled by its exact value, or by
  one of the special values the division yields when the divisor is zero. Rounding to a
  double is left out: it is monotone and keeps 0 and 1 fixed, so bounds by 0 and 1 carry
  over.
\<close>

datatype jsnum = Num rat | NaN | PosInfinity | NegInfinity

definition js_div :: "int \<Rightarrow> int \<Rightarrow> jsnum" where
  "js_div a b =
     (if b = 0 then (if a = 0 then NaN else if 0 < a then PosInfinity else NegInfinity)
      else Num (of_int a / of_int b))"

text \<open>\<open>const clamp = (n, min, max) => Math.max(min, Math.min(max, n))\<close>\<close>

definition clamp :: "int \<Rightarrow> int \<Rightarrow> int \<Rightarrow> int" where
  "clamp n mn mx = max mn (min mx n)"

section \<open>Progress computation of the main component\<close>

text \<open>
  \<open>totalMs\<close>, \<open>elapsedMs\<close>, \<open>remainingMs\<close> and \<open>progress\<close> as \<open>GPTDeadlineApp\<close>
  computes them from the window and \<open>now\<close>. The source has no check of \<open>totalMs\<close>
  before the division and no statement that throws.
\<close>

record progress_view =
  totalMs :: int
  elapsedMs :: int
  remainingMs :: int
  progress :: jsnum

definition computeProgress :: "int \<Rightarrow> int \<Rightarrow> int \<Rightarrow> progress_view" where
  "computeProgress start end now =
     (let total = end - start;
          elapsed = clamp (now - start) 0 total;
          remaining = clamp (end - now) 0 total
      in \<lparr> totalMs = total, elapsedMs = elapsed, remainingMs = remaining,
           progress = js_div elapsed total \<rparr>)"

section \<open>Calendar arithmetic of the date library\<close>

text \<open>
  \<open>monthAddCalendar\<close> and \<open>milestoneTimes\<close> call Luxon's \<open>DateTime.plus\<close> and
  \<open>DateTime.minus\<close>. Luxon moves the calendar fields (months, days) in local time and
  converts back through the zone, and adds the time units (hours, minutes, seconds,
  milliseconds) to the timestamp. The definitions below follow Luxon's \<open>tsToObj\<close>,
  \<open>objToLocalTS\<close>, \<open>daysInMonth\<close>, \<open>fixOffset\<close> and \<open>adjustTime\<close>; the calendar
  fields of a timestamp are those of the ECMAScript Date functions (\<open>DayFromYear\<close>,
  \<open>YearFromTime\<close>, \<open>MonthFromTime\<close>, \<open>DateFromTime\<close>, \<open>MakeDay\<close>).

  A zone is its offset function: the UTC offset in minutes at an instant
  (\<open>Zone.offset(ts)\<close>).
\<close>

type_synonym zone = "int \<Rightarrow> int"

definition isLeapYear :: "int \<Rightarrow> bool" where
  "isLeapYear year = (year mod 4 = 0 \<and> (year mod 100 \<noteq> 0 \<or> year mod 400 = 0))"

definition daysInMonth :: "int \<Rightarrow> int \<Rightarrow> int" where
  "daysInMonth year month =
     (let modMonth = (month - 1) mod 12 + 1;
          modYear = year + (month - modMonth) div 12
      in if modMonth = 2 then (if isLeapYear modYear then 29 else 28)
         else [31, 0, 31, 30, 31, 30, 31, 31, 30, 31, 30, 31] ! nat (modMonth - 1))"

definition DayFromYear :: "int \<Rightarrow> int" where
  "DayFromYear y =
     365 * (y - 1970) + (y - 1969) div 4 - (y - 1901) div 100 + (y - 1601) div 400"

definition DaysInYear :: "int \<Rightarrow> int" where
  "DaysInYear y = (if isLeapYear y then 366 else 365)"

text \<open>
  The year of a day number: ECMAScript takes the largest \<open>y\<close> with
  \<open>DayFromYear y \<le> d\<close>. The definition computes it from an estimate that is off by at
  most one; \<open>YearFromDay_spec\<close> below proves the characterisation.
\<close>

definition YearFromDay :: "int \<Rightarrow> int" where
  "YearFromDay d =
     (let g = 1970 + (400 * d) div 146097
      in if DayFromYear (g + 1) \<le> d then g + 1
         else if DayFromYear g \<le> d then g
         else g - 1)"

text \<open>Day within the year on which month \<open>m\<close> (0 to 11) begins.\<close>

definition firstDayOfMonth :: "bool \<Rightarrow> int \<Rightarrow> int" where
  "firstDayOfMonth leap m =
     [0, 31, 59, 90, 120, 151, 181, 212, 243, 273, 304, 334] ! nat m
       + (if leap \<and> 2 \<le> m then 1 else 0)"

definition MonthFromDay :: "bool \<Rightarrow> int \<Rightarrow> int" where
  "MonthFromDay leap k =
     (let l = (if leap then 1 else 0) in
      if k < 31 then 0
      else if k < 59 + l then 1
      else if k < 90 + l then 2
      else if k < 120 + l then 3
      else if k < 151 + l then 4
      else if k < 181 + l then 5
      else if k < 212 + l then 6
      else if k < 243 + l then 7
      else if k < 273 + l then 8
      else if k < 304 + l then 9
      else if k < 334 + l then 10
      else 11)"

text \<open>\<open>MakeDay\<close> accepts a month outside 0 to 11 and a date outside the month.\<close>

definition MakeDay :: "int \<Rightarrow> int \<Rightarrow> int \<Rightarrow> int" where
  "MakeDay year month date =
     (let ym = year + month div 12;
          mn = month mod 12
      in DayFromYear ym + firstDayOfMonth (isLeapYear ym) mn + date - 1)"

record dateobj =
  year :: int
  month :: int
  day :: int
  hour :: int
  minute :: int
  second :: int
  millisecond :: int

definition tsToObj :: "int \<Rightarrow> int \<Rightarrow> dateobj" where
  "tsToObj ts offset =
     (let t = ts + offset * 60 * 1000;
          d = t div 86400000;
          w = t mod 86400000;
          y = YearFromDay d;
          k = d - DayFromYear y;
          m = MonthFromDay (isLeapYear y) k
      in \<lparr> year = y, month = m + 1, day = k - firstDayOfMonth (isLeapYear y) m + 1,
           hour = w div 3600000, minute = (w div 60000) mod 60,
           second = (w div 1000) mod 60, millisecond = w mod 1000 \<rparr>)"

definition objToLocalTS :: "dateobj \<Rightarrow> int" where
  "objToLocalTS obj =
     MakeDay (year obj) (month obj - 1) (day obj) * 86400000
       + hour obj * 3600000 + minute obj * 60000 + second obj * 1000 + millisecond obj"

definition fixOffset :: "int \<Rightarrow> int \<Rightarrow> zone \<Rightarrow> int \<times> int" where
  "fixOffset localTS o1 tz =
     (let utcGuess = localTS - o1 * 60 * 1000;
          o2 = tz utcGuess
      in if o1 = o2 then (utcGuess, o1)
         else let utcGuess2 = utcGuess - (o2 - o1) * 60 * 1000;
                  o3 = tz utcGuess2
              in if o2 = o3 then (utcGuess2, o2)
                 else (localTS - min o2 o3 * 60 * 1000, max o2 o3))"

text \<open>The units of a duration that the source uses, all whole numbers.\<close>

record duration =
  months :: int
  days :: int
  hours :: int
  minutes :: int
  seconds :: int

definition noDuration :: duration where
  "noDuration = \<lparr> months = 0, days = 0, hours = 0, minutes = 0, seconds = 0 \<rparr>"

definition negate :: "duration \<Rightarrow> duration" where
  "negate dur = \<lparr> months = - months dur, days = - days dur, hours = - hours dur,
                  minutes = - minutes dur, seconds = - seconds dur \<rparr>"

definition adjustTime :: "zone \<Rightarrow> int \<Rightarrow> duration \<Rightarrow> int" where
  "adjustTime tz ts dur =
     (let oPre = tz ts;
          c = tsToObj ts oPre;
          y = year c;
          m = month c + months dur;
          c' = c \<lparr> year := y, month := m,
                   day := min (day c) (daysInMonth y m) + days dur \<rparr>;
          millisToAdd = hours dur * 3600000 + minutes dur * 60000 + seconds dur * 1000;
          localTS = objToLocalTS c';
          ts' = fst (fixOffset localTS oPre tz)
      in if millisToAdd \<noteq> 0 then ts' + millisToAdd else ts')"

definition dt_plus :: "zone \<Rightarrow> int \<Rightarrow> duration \<Rightarrow> int" where
  "dt_plus tz dt dur = adjustTime tz dt dur"

definition dt_minus :: "zone \<Rightarrow> int \<Rightarrow> duration \<Rightarrow> int" where
  "dt_minus tz dt dur = adjustTime tz dt (negate dur)"

text \<open>
  \<open>start.plus({ milliseconds: totalMs / 2 })\<close>: the quotient is a half-integer when
  \<open>totalMs\<close> is odd, and Luxon adds the milliseconds of a duration to the timestamp as
  they are, so this one result is a rational number of milliseconds.
\<close>

definition plusMilliseconds :: "zone \<Rightarrow> int \<Rightarrow> rat \<Rightarrow> rat" where
  "plusMilliseconds tz ts ms =
     (let oPre = tz ts;
          c = tsToObj ts oPre;
          c' = c \<lparr> day := min (day c) (daysInMonth (year c) (month c)) \<rparr>;
          localTS = objToLocalTS c';
          ts' = fst (fixOffset localTS oPre tz)
      in if ms \<noteq> 0 then of_int ts' + ms else of_int ts')"

section \<open>The cycle and its active window\<close>

datatype kind = Halfway | ThreeDays | LastDay | Renewal

text \<open>
  The fields of the cycle object that the resolver and the reminders read. \<open>timezone\<close>
  is the zone named by \<open>cycle.timezone\<close>; \<open>startISO\<close> and \<open>endISO\<close> are the
  instants that \<open>inZone(cycle.startISO, cycle.timezone)\<close> and
  \<open>inZone(cycle.endISO, cycle.timezone)\<close> denote.
\<close>

record cycle =
  timezone :: zone
  startISO :: int
  endISO :: int
  reminders :: "kind \<Rightarrow> bool"

record window =
  w_start :: int
  w_end :: int
  w_rolled :: bool

definition monthAddCalendar :: "zone \<Rightarrow> int \<Rightarrow> int \<Rightarrow> int" where
  "monthAddCalendar tz dt mths = dt_plus tz dt (noDuration \<lparr> months := mths \<rparr>)"

text \<open>
  The \<open>while (now >= end)\<close> loop of \<open>rollCycleToNow\<close>. Nothing in the loop bounds the
  number of rounds, so not returning is the value \<open>None\<close>.
\<close>

partial_function (option) rollLoop ::
  "zone \<Rightarrow> int \<Rightarrow> int \<Rightarrow> int \<Rightarrow> bool \<Rightarrow> window option" where
  "rollLoop tz now start end rolled =
     (if now \<ge> end then rollLoop tz now end (monthAddCalendar tz end 1) True
      else Some \<lparr> w_start = start, w_end = end, w_rolled = rolled \<rparr>)"

definition rollCycleToNow :: "cycle \<Rightarrow> int \<Rightarrow> window option" where
  "rollCycleToNow cycle now =
     (let start = startISO cycle;
          end = endISO cycle;
          rolled = False
      in if now < start then Some \<lparr> w_start = start, w_end = end, w_rolled = rolled \<rparr>
         else rollLoop (timezone cycle) now start end rolled)"

section \<open>Milestones\<close>

record milestones =
  halfway :: rat
  threeDays :: int
  lastDay :: int
  renewal :: int

definition milestoneTimes :: "zone \<Rightarrow> int \<Rightarrow> int \<Rightarrow> milestones" where
  "milestoneTimes tz start end =
     (let totalMs = end - start
      in \<lparr> halfway = plusMilliseconds tz start (of_int totalMs / 2),
           threeDays = dt_minus tz end (noDuration \<lparr> days := 3 \<rparr>),
           lastDay = dt_minus tz end (noDuration \<lparr> hours := 24 \<rparr>),
           renewal = end \<rparr>)"

text \<open>The milestone list of the main component: the instant shown for each key.\<close>

definition milestoneAt :: "milestones \<Rightarrow> kind \<Rightarrow> rat" where
  "milestoneAt m key =
     (case key of Halfway \<Rightarrow> halfway m | ThreeDays \<Rightarrow> of_int (threeDays m)
      | LastDay \<Rightarrow> of_int (lastDay m) | Renewal \<Rightarrow> of_int (renewal m))"

section \<open>Reminders\<close>

text \<open>
  The effect of \<open>useReminders\<close> with its state made explicit:
  \<^item> \<open>timers_current\<close> is the object \<open>timers.current\<close> (key to timeout id);
  \<^item> \<open>browser_timeouts\<close> are the timeouts set with \<open>window.setTimeout\<close> and not
    cleared: the id, the key whose notification the handler shows, the clock reading when
    it was set and the delay passed;
  \<^item> \<open>awaiting\<close> are the calls of \<open>schedule\<close> suspended at
    \<open>await Notification.requestPermission()\<close>, each holding its key and the delay it
    computed before the \<open>await\<close>;
  \<^item> \<open>next_id\<close> is the id the next \<open>setTimeout\<close> returns (ids are positive, so
    \<open>id && clearTimeout(id)\<close> clears every id stored).
  Title and body of a notification are fixed per key and are left out.
\<close>

datatype notification =
  NoNotificationAPI | PermissionDefault | PermissionGranted | PermissionDenied

record timeout =
  t_id :: nat
  t_key :: kind
  t_set :: int
  t_delay :: rat

record scheduler =
  timers_current :: "(kind \<times> nat) list"
  browser_timeouts :: "timeout list"
  awaiting :: "(kind \<times> rat) list"
  next_id :: nat

definition initialScheduler :: scheduler where
  "initialScheduler =
     \<lparr> timers_current = [], browser_timeouts = [], awaiting = [], next_id = 1 \<rparr>"

text \<open>
  \<open>Object.values(timers.current).forEach((id) => id && clearTimeout(id));
  timers.current = {}\<close>
\<close>

definition clearTimeouts :: "scheduler \<Rightarrow> scheduler" where
  "clearTimeouts st =
     st \<lparr> browser_timeouts :=
            filter (\<lambda>t. t_id t \<notin> snd ` set (timers_current st)) (browser_timeouts st),
          timers_current := [] \<rparr>"

text \<open>\<open>timers.current[key] = window.setTimeout(notify, delay)\<close>\<close>

definition setTimer :: "kind \<Rightarrow> rat \<Rightarrow> int \<Rightarrow> scheduler \<Rightarrow> scheduler" where
  "setTimer key delay at_time st =
     st \<lparr> timers_current := AList.update key (next_id st) (timers_current st),
          browser_timeouts := browser_timeouts st
             @ [\<lparr> t_id = next_id st, t_key = key, t_set = at_time, t_delay = delay \<rparr>],
          next_id := next_id st + 1 \<rparr>"

text \<open>
  One call of \<open>schedule(key, at, title, body)\<close> up to its first suspension. \<open>nowRef\<close>
  is the reading of \<open>DateTime.now()\<close> in this call. With the permission still
  \<open>default\<close> the call suspends at the \<open>await\<close> before it sets the timeout; otherwise it
  runs to its end at once.
\<close>

definition schedule ::
  "(kind \<Rightarrow> bool) \<Rightarrow> notification \<Rightarrow> int \<Rightarrow> kind \<Rightarrow> rat \<Rightarrow> scheduler \<Rightarrow> scheduler" where
  "schedule enabled perm nowRef key at_dt st =
     (let delay = at_dt - of_int nowRef
      in if delay \<le> 0 \<or> \<not> enabled key then st
         else if perm = PermissionDefault
              then st \<lparr> awaiting := awaiting st @ [(key, delay)] \<rparr>
              else setTimer key delay nowRef st)"

text \<open>
  The permission request settles and the oldest suspended call continues at clock reading
  \<open>at_time\<close>: it sets its timeout with the delay it computed earlier.
\<close>

definition resume :: "int \<Rightarrow> scheduler \<Rightarrow> scheduler" where
  "resume at_time st =
     (case awaiting st of
        [] \<Rightarrow> st
      | (key, delay) # rest \<Rightarrow> setTimer key delay at_time (st \<lparr> awaiting := rest \<rparr>))"

text \<open>
  The body of the effect; \<open>clock key\<close> is what \<open>DateTime.now()\<close> returns in the call
  of \<open>schedule\<close> for \<open>key\<close>. The function the effect returns is \<open>remindersCleanup\<close>.
\<close>

definition remindersEffect ::
  "(kind \<Rightarrow> bool) \<Rightarrow> zone \<Rightarrow> int \<Rightarrow> int \<Rightarrow> notification \<Rightarrow> (kind \<Rightarrow> int)
     \<Rightarrow> scheduler \<Rightarrow> scheduler" where
  "remindersEffect enabled tz start end perm clock st =
     (let st0 = clearTimeouts st;
          m = milestoneTimes tz start end;
          st1 = schedule enabled perm (clock Halfway) Halfway (halfway m) st0;
          st2 = schedule enabled perm (clock ThreeDays) ThreeDays (of_int (threeDays m)) st1;
          st3 = schedule enabled perm (clock LastDay) LastDay (of_int (lastDay m)) st2;
          st4 = schedule enabled perm (clock Renewal) Renewal
                  (of_int (dt_minus tz (renewal m) (noDuration \<lparr> minutes := 5 \<rparr>))) st3
      in st4)"

definition remindersCleanup :: "scheduler \<Rightarrow> scheduler" where
  "remindersCleanup st = clearTimeouts st"

section \<open>The clock of the component and the path from the clock to the reminders\<close>

text \<open>
  \<open>useNowTick\<close>: the first value of \<open>now\<close> and its value after a tick. \<open>wall\<close> is the
  reading of \<open>DateTime.now()\<close>, \<open>qaNowISO\<close> the instant of the override when one is
  set, \<open>tz\<close> the default zone.
\<close>

definition useNowTick_init :: "bool \<Rightarrow> int option \<Rightarrow> int \<Rightarrow> int" where
  "useNowTick_init qaMode qaNowISO wall =
     (case qaNowISO of
        Some qa \<Rightarrow> if qaMode then qa else wall
      | None \<Rightarrow> wall)"

definition useNowTick_tick :: "zone \<Rightarrow> bool \<Rightarrow> int \<Rightarrow> int \<Rightarrow> int" where
  "useNowTick_tick tz qaMode prev wall =
     (if qaMode then dt_plus tz prev (noDuration \<lparr> seconds := 1 \<rparr>) else wall)"

text \<open>
  \<open>GPTDeadlineApp\<close> resolves the window from the component's \<open>now\<close> and hands its
  bounds and \<open>cycle.reminders\<close> to \<open>useReminders\<close>, whose effect reads the wall clock.
\<close>

definition appReminders ::
  "cycle \<Rightarrow> int \<Rightarrow> notification \<Rightarrow> (kind \<Rightarrow> int) \<Rightarrow> scheduler \<Rightarrow> scheduler option" where
  "appReminders cycle now perm clock st =
     (case rollCycleToNow cycle now of
        None \<Rightarrow> None
      | Some w \<Rightarrow>
          Some (remindersEffect (reminders cycle) (timezone cycle) (w_start w) (w_end w)
                  perm clock st))"

section \<open>Persisted settings\<close>

text \<open>
  \<open>loadState(key, fallback)\<close>. A JavaScript object is the list of its properties in
  order, each key once.
  \<open>localStorage.getItem\<close> throws when storage is unavailable, returns \<open>null\<close> when
  the key is missing, and the stored text otherwise. \<open>JSON.parse\<close> is a parameter: it
  throws or returns a value.
\<close>

datatype json = JNull | JBool bool | JNum rat | JStr string | JArr "json list"
  | JObj "(string \<times> json) list"

type_synonym props = "(string \<times> json) list"

datatype js_error = SecurityError | SyntaxError

datatype storage = Unavailable | Missing | Item string

definition getItem :: "storage \<Rightarrow> js_error + string option" where
  "getItem s =
     (case s of Unavailable \<Rightarrow> Inl SecurityError | Missing \<Rightarrow> Inr None
      | Item raw \<Rightarrow> Inr (Some raw))"

text \<open>Decimal digits of an index, the property names of an array or a string.\<close>

fun digits :: "nat \<Rightarrow> string" where
  "digits n = (if n < 10 then [char_of (48 + n)]
               else digits (n div 10) @ [char_of (48 + n mod 10)])"

text \<open>
  The own enumerable properties that \<open>...value\<close> copies: the entries of an object, the
  indexed elements of an array, the indexed characters of a string, and nothing for
  \<open>null\<close>, a boolean or a number.
\<close>

definition ownProps :: "json \<Rightarrow> props" where
  "ownProps v =
     (case v of
        JObj kvs \<Rightarrow> kvs
      | JArr xs \<Rightarrow> zip (map digits [0..<length xs]) xs
      | JStr s \<Rightarrow> zip (map digits [0..<length s]) (map (\<lambda>c. JStr [c]) s)
      | _ \<Rightarrow> [])"

text \<open>
  \<open>{ ...target, ...source }\<close>: the copy of \<open>target\<close> is \<open>target\<close> itself; each property
  of \<open>source\<close> replaces the value of its key or is added at the end.
\<close>

definition spread :: "props \<Rightarrow> props \<Rightarrow> props" where
  "spread target source = foldl (\<lambda>acc (k, v). AList.update k v acc) target source"

text \<open>The \<open>try\<close> block of \<open>loadState\<close>: \<open>Inl\<close> is an exception that leaves it.\<close>

definition loadState_try ::
  "(string \<Rightarrow> js_error + json) \<Rightarrow> storage \<Rightarrow> props \<Rightarrow> js_error + props" where
  "loadState_try parse store fallback =
     (case getItem store of
        Inl err \<Rightarrow> Inl err
      | Inr None \<Rightarrow> Inr fallback
      | Inr (Some raw) \<Rightarrow>
          if raw = [] then Inr fallback
          else (case parse raw of
                  Inl err \<Rightarrow> Inl err
                | Inr v \<Rightarrow> Inr (spread fallback (ownProps v))))"

definition loadState ::
  "(string \<Rightarrow> js_error + json) \<Rightarrow> storage \<Rightarrow> props \<Rightarrow> props" where
  "loadState parse store fallback =
     (case loadState_try parse store fallback of Inl err \<Rightarrow> fallback | Inr v \<Rightarrow> v)"

definition DEFAULT_CYCLE :: props where
  "DEFAULT_CYCLE =
     [(''plan'', JStr ''ChatGPT Plus''),
      (''timezone'', JStr ''Asia/Kathmandu''),
      (''startISO'', JStr ''2025-08-20T07:18:00+05:45''),
      (''endISO'', JStr ''2025-09-20T07:18:00+05:45''),
      (''reminders'', JObj [(''halfway'', JBool True), (''threeDays'', JBool True),
                            (''lastDay'', JBool True), (''renewal'', JBool True)]),
      (''theme'', JStr ''system''),
      (''hourFormat'', JStr ''12h'')]"

text \<open>
  Reading a property (\<open>obj[k]\<close>; \<open>None\<close> is \<open>undefined\<close>) and reading a reminder flag
  (\<open>cycle.reminders[k]\<close>).
\<close>

definition getProp :: "props \<Rightarrow> string \<Rightarrow> json option" where
  "getProp obj k = map_of obj k"

definition reminderFlag :: "props \<Rightarrow> string \<Rightarrow> json option" where
  "reminderFlag obj k =
     (case getProp obj ''reminders'' of
        Some (JObj flags) \<Rightarrow> getProp flags k
      | _ \<Rightarrow> None)"

section \<open>Notions used in the statements\<close>

text \<open>
  The property \<open>k\<close> that a stored value contributes to a spread, if any. Should a
  list name a key twice, the last entry counts, as in \<open>JSON.parse\<close>.
\<close>

definition storedProp :: "json \<Rightarrow> string \<Rightarrow> json option" where
  "storedProp v k = map_of (rev (ownProps v)) k"

text \<open>
  The offsets of a zone stay within a day of UTC. Every zone of the time zone database
  does.
\<close>

definition zoneBounded :: "zone \<Rightarrow> bool" where
  "zoneBounded tz = (\<forall>t. - 1440 \<le> tz t \<and> tz t \<le> 1440)"

text \<open>
  The default zone, \<open>Asia/Kathmandu\<close>: UTC+05:30 until the end of 1985 and UTC+05:45
  from 1986-01-01T00:00 local time (1985-12-31T18:30Z) on. Local mean time before 1920
  is left out.
\<close>

definition kathmandu :: zone where
  "kathmandu ts = (if ts < 504901800000 then 330 else 345)"


text \<open>
  The default cycle of the source, 2025-08-20T07:18+05:45 to 2025-09-20T07:18+05:45, with
  every reminder enabled.
\<close>

definition defaultCycle :: cycle where
  "defaultCycle = \<lparr> timezone = kathmandu, startISO = 1755653580000,
                     endISO = 1758331980000, reminders = (\<lambda>_. True) \<rparr>"

definition validDate :: "dateobj \<Rightarrow> bool" where
  "validDate c = (1 \<le> month c \<and> month c \<le> 12 \<and> 1 \<le> day c
      \<and> day c \<le> daysInMonth (year c) (month c))"

text \<open>
  The timeouts in the browser without their ids (key, clock reading when set, delay), and
  those of one key; the suspended calls of one key.
\<close>

definition armed :: "scheduler \<Rightarrow> (kind \<times> int \<times> rat) list" where
  "armed st = map (\<lambda>t. (t_key t, t_set t, t_delay t)) (browser_timeouts st)"

definition armedFor :: "kind \<Rightarrow> scheduler \<Rightarrow> (kind \<times> int \<times> rat) list" where
  "armedFor key st = filter (\<lambda>p. fst p = key) (armed st)"

definition awaitingFor :: "kind \<Rightarrow> scheduler \<Rightarrow> (kind \<times> rat) list" where
  "awaitingFor key st = filter (\<lambda>p. fst p = key) (awaiting st)"

text \<open>
  The instant the effect passes to \<open>schedule\<close> for each key: the milestone itself, but
  five minutes before the end of the window for the renewal.
\<close>

definition scheduledAt :: "zone \<Rightarrow> int \<Rightarrow> int \<Rightarrow> kind \<Rightarrow> rat" where
  "scheduledAt tz start end key =
     (case key of
        Renewal \<Rightarrow> of_int (end - 5 * 60000)
      | _ \<Rightarrow> milestoneAt (milestoneTimes tz start end) key)"

definition newTimer ::
  "(kind \<Rightarrow> bool) \<Rightarrow> notification \<Rightarrow> (kind \<Rightarrow> int) \<Rightarrow> zone \<Rightarrow> int \<Rightarrow> int \<Rightarrow> kind
     \<Rightarrow> (kind \<times> int \<times> rat) list" where
  "newTimer enabled perm clock tz start end key =
     (if of_int (clock key) < scheduledAt tz start end key \<and> enabled key
         \<and> perm \<noteq> PermissionDefault
      then [(key, clock key, scheduledAt tz start end key - of_int (clock key))] else [])"

definition newAwaiting ::
  "(kind \<Rightarrow> bool) \<Rightarrow> notification \<Rightarrow> (kind \<Rightarrow> int) \<Rightarrow> zone \<Rightarrow> int \<Rightarrow> int \<Rightarrow> kind
     \<Rightarrow> (kind \<times> rat) list" where
  "newAwaiting enabled perm clock tz start end key =
     (if of_int (clock key) < scheduledAt tz start end key \<and> enabled key
         \<and> perm = PermissionDefault
      then [(key, scheduledAt tz start end key - of_int (clock key))] else [])"

text \<open>
  The state \<open>st\<close> has grown from \<open>st0\<close> by timeouts that \<open>timers.current\<close> names,
  one for each of its keys, all of them for keys in \<open>K\<close> and with ids not used before.
\<close>

definition tracked :: "scheduler \<Rightarrow> scheduler \<Rightarrow> kind set \<Rightarrow> bool" where
  "tracked st0 st K =
     (\<exists>new. browser_timeouts st = browser_timeouts st0 @ new
        \<and> map (\<lambda>t. (t_key t, t_id t)) new = timers_current st
        \<and> (\<forall>t\<in>set new. next_id st0 \<le> t_id t \<and> t_id t < next_id st)
        \<and> fst ` set (timers_current st) \<subseteq> K
        \<and> next_id st0 \<le> next_id st)"

text \<open>
  A stored record that misses top-level keys and nested flags, its text, and a
  \<open>JSON.parse\<close> that knows this text.
\<close>

definition storedText :: string where
  "storedText = ''{\"theme\":\"dark\",\"reminders\":{\"halfway\":false}}''"

definition storedValue :: json where
  "storedValue = JObj [(''theme'', JStr ''dark''),
                       (''reminders'', JObj [(''halfway'', JBool False)])]"

definition parseStored :: "string \<Rightarrow> js_error + json" where
  "parseStored raw = (if raw = storedText then Inr storedValue else Inl SyntaxError)"

section \<open>Facts about the calendar\<close>

lemma div_bounds: "0 < c \<Longrightarrow> c * (a div c) \<le> a \<and> a < c * (a div c) + (c::int)"
proof -
  assume c: "0 < c"
  have "a = c * (a div c) + a mod c" by simp
  moreover have "0 \<le> a mod c" "a mod c < c" using c by simp_all
  ultimately show ?thesis by linarith
qed

lemma div_succ:
  fixes a c :: int
  assumes c: "0 < c"
  shows "(a + 1) div c = a div c + (if (a + 1) mod c = 0 then 1 else 0)"
proof -
  have e1: "a = c * (a div c) + a mod c" by simp
  have b: "0 \<le> a mod c" "a mod c < c" using c by simp_all
  show ?thesis
  proof (cases "a mod c + 1 = c")
    case True
    have "a + 1 = c * (a div c) + (a mod c + 1)" using e1 by linarith
    also have "\<dots> = c * (a div c + 1) + 0" using True by (simp add: algebra_simps)
    finally have e: "a + 1 = c * (a div c + 1) + 0" .
    have "(a + 1) div c = a div c + 1" using int_div_pos_eq [OF e] c by simp
    moreover have "(a + 1) mod c = 0" using int_mod_pos_eq [OF e] c by simp
    ultimately show ?thesis by simp
  next
    case False
    then have lt: "a mod c + 1 < c" using b by linarith
    have e: "a + 1 = c * (a div c) + (a mod c + 1)" using e1 by linarith
    have "(a + 1) div c = a div c" using int_div_pos_eq [OF e] lt b by simp
    moreover have "(a + 1) mod c = a mod c + 1" using int_mod_pos_eq [OF e] lt b by simp
    ultimately show ?thesis using b by simp
  qed
qed

lemma m4: "(y - 1968) mod 4 = y mod (4::int)"
  using mod_mult_self2 [of y 4 "-492"] by simp
lemma m100: "(y - 1900) mod 100 = y mod (100::int)"
  using mod_mult_self2 [of y 100 "-19"] by simp
lemma m400: "(y - 1600) mod 400 = y mod (400::int)"
  using mod_mult_self2 [of y 400 "-4"] by simp

lemma mod_400_100: "y mod 400 = 0 \<Longrightarrow> y mod 100 = (0::int)"
  using mod_mod_cancel [of 100 400 y] by simp
lemma mod_100_4: "y mod 100 = 0 \<Longrightarrow> y mod 4 = (0::int)"
  using mod_mod_cancel [of 4 100 y] by simp

lemma DayFromYear_Suc: "DayFromYear (y + 1) = DayFromYear y + DaysInYear y"
proof -
  have a: "(y + 1 - 1969) div 4 = (y - 1969) div 4 + (if y mod 4 = 0 then 1 else 0)"
    using div_succ [of 4 "y - 1969"] m4 [of y] by (simp add: algebra_simps)
  have b: "(y + 1 - 1901) div 100 = (y - 1901) div 100 + (if y mod 100 = 0 then 1 else 0)"
    using div_succ [of 100 "y - 1901"] m100 [of y] by (simp add: algebra_simps)
  have c: "(y + 1 - 1601) div 400 = (y - 1601) div 400 + (if y mod 400 = 0 then 1 else 0)"
    using div_succ [of 400 "y - 1601"] m400 [of y] by (simp add: algebra_simps)
  define q4 where "q4 = (y - 1969) div 4"
  define q100 where "q100 = (y - 1901) div 100"
  define q400 where "q400 = (y - 1601) div 400"
  have d: "DayFromYear (y + 1) = 365 * (y + 1 - 1970)
      + (q4 + (if y mod 4 = 0 then 1 else 0))
      - (q100 + (if y mod 100 = 0 then 1 else 0))
      + (q400 + (if y mod 400 = 0 then 1 else 0))"
    unfolding DayFromYear_def a b c q4_def q100_def q400_def ..
  have e: "DayFromYear y = 365 * (y - 1970) + q4 - q100 + q400"
    unfolding DayFromYear_def q4_def q100_def q400_def ..
  show ?thesis
  proof (cases "y mod 400 = 0")
    case True
    then have "y mod 100 = 0" "y mod 4 = 0" using mod_400_100 [of y] mod_100_4 [of y] by simp_all
    then show ?thesis using True d e by (simp add: DaysInYear_def isLeapYear_def)
  next
    case n400: False
    show ?thesis
    proof (cases "y mod 100 = 0")
      case True
      then have "y mod 4 = 0" using mod_100_4 [of y] by simp
      then show ?thesis using True n400 d e by (simp add: DaysInYear_def isLeapYear_def)
    next
      case False
      then show ?thesis using n400 d e by (simp add: DaysInYear_def isLeapYear_def)
    qed
  qed
qed

lemma DayFromYear_bounds:
  "146097 * y - 287811603 \<le> 400 * DayFromYear y"
  "400 * DayFromYear y \<le> 146097 * y - 287810494"
proof -
  define q4 where "q4 = (y - 1969) div 4"
  define q100 where "q100 = (y - 1901) div 100"
  define q400 where "q400 = (y - 1601) div 400"
  have e: "DayFromYear y = 365 * (y - 1970) + q4 - q100 + q400"
    unfolding DayFromYear_def q4_def q100_def q400_def ..
  have b4: "4 * q4 \<le> y - 1969" "y - 1969 < 4 * q4 + 4"
    using div_bounds [of 4 "y - 1969"] unfolding q4_def by simp_all
  have b100: "100 * q100 \<le> y - 1901" "y - 1901 < 100 * q100 + 100"
    using div_bounds [of 100 "y - 1901"] unfolding q100_def by simp_all
  have b400: "400 * q400 \<le> y - 1601" "y - 1601 < 400 * q400 + 400"
    using div_bounds [of 400 "y - 1601"] unfolding q400_def by simp_all
  have e400: "400 * DayFromYear y = 146000 * y - 287620000 + 400 * q4 - 400 * q100 + 400 * q400"
    unfolding e by (simp add: algebra_simps)
  show "146097 * y - 287811603 \<le> 400 * DayFromYear y"
    unfolding e400 using b4 b100 b400 by linarith
  show "400 * DayFromYear y \<le> 146097 * y - 287810494"
    unfolding e400 using b4 b100 b400 by linarith
qed

lemma YearFromDay_spec:
  "DayFromYear (YearFromDay d) \<le> d \<and> d < DayFromYear (YearFromDay d + 1)"
proof -
  define g where "g = 1970 + (400 * d) div 146097"
  define q where "q = (400 * d) div 146097"
  have g: "g = 1970 + q" by (simp add: g_def q_def)
  have bq: "146097 * q \<le> 400 * d" "400 * d < 146097 * q + 146097"
    using div_bounds [of 146097 "400 * d"] unfolding q_def by simp_all
  have p1: "146097 * (g - 1) = 146097 * q + 287664993" by (simp add: g algebra_simps)
  have p2: "146097 * (g + 2) = 146097 * q + 288103284" by (simp add: g algebra_simps)
  have lo: "DayFromYear (g - 1) \<le> d"
    using DayFromYear_bounds(2) [of "g - 1"] bq unfolding p1 by linarith
  have hi: "d < DayFromYear (g + 2)"
    using DayFromYear_bounds(1) [of "g + 2"] bq unfolding p2 by linarith
  have s0: "DayFromYear g = DayFromYear (g - 1) + DaysInYear (g - 1)"
    using DayFromYear_Suc [of "g - 1"] by simp
  have s2: "g + 1 + 1 = g + 2" by simp
  have y: "YearFromDay d = (if DayFromYear (g + 1) \<le> d then g + 1
         else if DayFromYear g \<le> d then g else g - 1)"
    unfolding YearFromDay_def g_def by (simp add: Let_def)
  show ?thesis
  proof (cases "DayFromYear (g + 1) \<le> d")
    case True
    then have e1: "YearFromDay d = g + 1" using y by simp
    then have e2: "YearFromDay d + 1 = g + 2" by linarith
    have "DayFromYear (YearFromDay d) \<le> d" unfolding e1 by (rule True)
    moreover have "d < DayFromYear (YearFromDay d + 1)" unfolding e2 by (rule hi)
    ultimately show ?thesis by blast
  next
    case f1: False
    show ?thesis
    proof (cases "DayFromYear g \<le> d")
      case True
      then show ?thesis using y f1 by simp
    next
      case False
      then show ?thesis using y f1 lo by simp
    qed
  qed
qed

lemma daysInMonth_plain:
  assumes "1 \<le> mo" "mo \<le> 12"
  shows "daysInMonth y mo =
     (if mo = 2 then (if isLeapYear y then 29 else 28)
      else [31, 0, 31, 30, 31, 30, 31, 31, 30, 31, 30, 31] ! nat (mo - 1))"
proof -
  have "(mo - 1) mod 12 = mo - 1" using assms by simp
  then show ?thesis by (simp add: daysInMonth_def Let_def)
qed

lemma month_cases:
  assumes "0 \<le> m" "m \<le> (11::int)"
  shows "m = 0 \<or> m = 1 \<or> m = 2 \<or> m = 3 \<or> m = 4 \<or> m = 5 \<or> m = 6 \<or> m = 7 \<or> m = 8
      \<or> m = 9 \<or> m = 10 \<or> m = 11"
  using assms by presburger

lemma firstDayOfMonth_next:
  assumes "0 \<le> m" "m \<le> 10"
  shows "firstDayOfMonth (isLeapYear y) (m + 1)
           = firstDayOfMonth (isLeapYear y) m + daysInMonth y (m + 1)"
proof -
  have c: "m = 0 \<or> m = 1 \<or> m = 2 \<or> m = 3 \<or> m = 4 \<or> m = 5 \<or> m = 6 \<or> m = 7 \<or> m = 8
      \<or> m = 9 \<or> m = 10" using assms by presburger
  have d: "daysInMonth y (m + 1) =
     (if m + 1 = 2 then (if isLeapYear y then 29 else 28)
      else [31, 0, 31, 30, 31, 30, 31, 31, 30, 31, 30, 31] ! nat (m + 1 - 1))"
    using assms by (intro daysInMonth_plain) simp_all
  show ?thesis unfolding d using c by (elim disjE) (simp_all add: firstDayOfMonth_def)
qed

lemma firstDayOfMonth_last:
  "firstDayOfMonth (isLeapYear y) 11 + daysInMonth y 12 = DaysInYear y"
  by (simp add: firstDayOfMonth_def daysInMonth_def DaysInYear_def Let_def)

lemma MonthFromDay_range: "0 \<le> MonthFromDay leap k \<and> MonthFromDay leap k \<le> 11"
  by (simp add: MonthFromDay_def Let_def)

lemma firstDayOfMonth_values:
  "firstDayOfMonth leap 0 = 0"
  "firstDayOfMonth leap 1 = 31"
  "firstDayOfMonth leap 2 = 59 + (if leap then 1 else 0)"
  "firstDayOfMonth leap 3 = 90 + (if leap then 1 else 0)"
  "firstDayOfMonth leap 4 = 120 + (if leap then 1 else 0)"
  "firstDayOfMonth leap 5 = 151 + (if leap then 1 else 0)"
  "firstDayOfMonth leap 6 = 181 + (if leap then 1 else 0)"
  "firstDayOfMonth leap 7 = 212 + (if leap then 1 else 0)"
  "firstDayOfMonth leap 8 = 243 + (if leap then 1 else 0)"
  "firstDayOfMonth leap 9 = 273 + (if leap then 1 else 0)"
  "firstDayOfMonth leap 10 = 304 + (if leap then 1 else 0)"
  "firstDayOfMonth leap 11 = 334 + (if leap then 1 else 0)"
  by (simp_all add: firstDayOfMonth_def)

lemma MonthFromDay_bracket:
  fixes k :: int
  assumes "0 \<le> k" "k < 365 + l"
  assumes m_def: "m = MonthFromDay leap k"
  assumes l: "l = (if leap then 1 else 0)"
  shows "firstDayOfMonth leap m \<le> k
       \<and> (if m = 11 then k < 365 + l else k < firstDayOfMonth leap (m + 1))"
proof -
  consider "k < 31" | "31 \<le> k" "k < 59 + l" | "59 + l \<le> k" "k < 90 + l"
    | "90 + l \<le> k" "k < 120 + l" | "120 + l \<le> k" "k < 151 + l"
    | "151 + l \<le> k" "k < 181 + l" | "181 + l \<le> k" "k < 212 + l"
    | "212 + l \<le> k" "k < 243 + l" | "243 + l \<le> k" "k < 273 + l"
    | "273 + l \<le> k" "k < 304 + l" | "304 + l \<le> k" "k < 334 + l"
    | "334 + l \<le> k" by linarith
  then show ?thesis
  proof cases
    case 1
    then have "m = 0" by (simp add: m_def MonthFromDay_def)
    then show ?thesis using 1 assms(1) by (simp add: firstDayOfMonth_values)
  next
    case 2
    then have "m = 1" using l by (cases leap) (simp_all add: m_def MonthFromDay_def)
    then show ?thesis using 2 l by (cases leap) (simp_all add: firstDayOfMonth_values)
  next
    case 3
    then have "m = 2" using l by (cases leap) (simp_all add: m_def MonthFromDay_def)
    then show ?thesis using 3 l by (cases leap) (simp_all add: firstDayOfMonth_values)
  next
    case 4
    then have "m = 3" using l by (cases leap) (simp_all add: m_def MonthFromDay_def)
    then show ?thesis using 4 l by (cases leap) (simp_all add: firstDayOfMonth_values)
  next
    case 5
    then have "m = 4" using l by (cases leap) (simp_all add: m_def MonthFromDay_def)
    then show ?thesis using 5 l by (cases leap) (simp_all add: firstDayOfMonth_values)
  next
    case 6
    then have "m = 5" using l by (cases leap) (simp_all add: m_def MonthFromDay_def)
    then show ?thesis using 6 l by (cases leap) (simp_all add: firstDayOfMonth_values)
  next
    case 7
    then have "m = 6" using l by (cases leap) (simp_all add: m_def MonthFromDay_def)
    then show ?thesis using 7 l by (cases leap) (simp_all add: firstDayOfMonth_values)
  next
    case 8
    then have "m = 7" using l by (cases leap) (simp_all add: m_def MonthFromDay_def)
    then show ?thesis using 8 l by (cases leap) (simp_all add: firstDayOfMonth_values)
  next
    case 9
    then have "m = 8" using l by (cases leap) (simp_all add: m_def MonthFromDay_def)
    then show ?thesis using 9 l by (cases leap) (simp_all add: firstDayOfMonth_values)
  next
    case 10
    then have "m = 9" using l by (cases leap) (simp_all add: m_def MonthFromDay_def)
    then show ?thesis using 10 l by (cases leap) (simp_all add: firstDayOfMonth_values)
  next
    case 11
    then have "m = 10" using l by (cases leap) (simp_all add: m_def MonthFromDay_def)
    then show ?thesis using 11 l by (cases leap) (simp_all add: firstDayOfMonth_values)
  next
    case 12
    then have "m = 11" using l by (cases leap) (simp_all add: m_def MonthFromDay_def)
    then show ?thesis using 12 l assms(2) by (cases leap) (simp_all add: firstDayOfMonth_values)
  qed
qed

lemma time_of_day_split:
  fixes w :: int
  shows "w div 3600000 * 3600000 + (w div 60000) mod 60 * 60000 + (w div 1000) mod 60 * 1000
           + w mod 1000 = w"
proof -
  have a: "w div 60000 = (w div 1000) div 60"
    using zdiv_zmult2_eq [of 60 w 1000] by simp
  have b: "w div 3600000 = (w div 60000) div 60"
    using zdiv_zmult2_eq [of 60 w 60000] by simp
  define s where "s = w div 1000"
  define mi where "mi = s div 60"
  define h where "h = mi div 60"
  have 1: "w = s * 1000 + w mod 1000" unfolding s_def by simp
  have 2: "s = mi * 60 + s mod 60" unfolding mi_def by simp
  have 3: "mi = h * 60 + mi mod 60" unfolding h_def by simp
  have "w div 3600000 = h" "w div 60000 = mi" "w div 1000 = s"
    unfolding h_def mi_def s_def a b by simp_all
  then show ?thesis using 1 2 3 by simp
qed

lemma MakeDay_in_year:
  assumes "0 \<le> m" "m \<le> 11"
  shows "MakeDay y m d = DayFromYear y + firstDayOfMonth (isLeapYear y) m + d - 1"
proof -
  have "m div 12 = 0" "m mod 12 = m" using assms by simp_all
  then show ?thesis by (simp add: MakeDay_def Let_def)
qed

lemma civil_of_day:
  fixes d :: int
  assumes y_def: "y = YearFromDay d"
  assumes k_def: "k = d - DayFromYear y"
  assumes m_def: "m = MonthFromDay (isLeapYear y) k"
  shows "0 \<le> m \<and> m \<le> 11 \<and> firstDayOfMonth (isLeapYear y) m \<le> k
       \<and> k < firstDayOfMonth (isLeapYear y) m + daysInMonth y (m + 1)"
proof -
  define l :: int where "l = (if isLeapYear y then 1 else 0)"
  have yr: "DayFromYear y \<le> d" "d < DayFromYear (y + 1)"
    using YearFromDay_spec [of d] unfolding y_def by simp_all
  have diy: "DaysInYear y = 365 + l" by (simp add: DaysInYear_def l_def)
  have k: "0 \<le> k" "k < 365 + l"
    using yr DayFromYear_Suc [of y] diy unfolding k_def by linarith+
  have r: "0 \<le> m" "m \<le> 11" using MonthFromDay_range [of "isLeapYear y" k] unfolding m_def by simp_all
  have br: "firstDayOfMonth (isLeapYear y) m \<le> k"
     "if m = 11 then k < 365 + l else k < firstDayOfMonth (isLeapYear y) (m + 1)"
    using MonthFromDay_bracket [OF k m_def l_def] by simp_all
  have up: "k < firstDayOfMonth (isLeapYear y) m + daysInMonth y (m + 1)"
  proof (cases "m = 11")
    case True
    then show ?thesis using br(2) firstDayOfMonth_last [of y] diy by simp
  next
    case False
    then have "m \<le> 10" using r by linarith
    then show ?thesis using br(2) False firstDayOfMonth_next [OF r(1), of y] by simp
  qed
  show ?thesis using r br(1) up by simp
qed

lemma tsToObj_unfold:
  assumes "t = ts + off * 60 * 1000" "d = t div 86400000" "w = t mod 86400000"
    "y = YearFromDay d" "k = d - DayFromYear y" "m = MonthFromDay (isLeapYear y) k"
  shows "tsToObj ts off = \<lparr> year = y, month = m + 1, day = k - firstDayOfMonth (isLeapYear y) m + 1,
           hour = w div 3600000, minute = (w div 60000) mod 60,
           second = (w div 1000) mod 60, millisecond = w mod 1000 \<rparr>"
  unfolding tsToObj_def assms Let_def ..


lemma tsToObj_valid: "validDate (tsToObj ts off)"
proof -
  define t where "t = ts + off * 60 * 1000"
  define d where "d = t div 86400000"
  define w where "w = t mod 86400000"
  define y where "y = YearFromDay d"
  define k where "k = d - DayFromYear y"
  define m where "m = MonthFromDay (isLeapYear y) k"
  note c = tsToObj_unfold [OF t_def d_def w_def y_def k_def m_def]
  have v: "0 \<le> m \<and> m \<le> 11 \<and> firstDayOfMonth (isLeapYear y) m \<le> k
       \<and> k < firstDayOfMonth (isLeapYear y) m + daysInMonth y (m + 1)"
    by (rule civil_of_day [OF y_def k_def m_def])
  have "year (tsToObj ts off) = y" "month (tsToObj ts off) = m + 1"
    "day (tsToObj ts off) = k - firstDayOfMonth (isLeapYear y) m + 1"
    unfolding c by simp_all
  then show ?thesis unfolding validDate_def using v by simp
qed

lemma tsToObj_roundtrip: "objToLocalTS (tsToObj ts off) = ts + off * 60 * 1000"
proof -
  define t where "t = ts + off * 60 * 1000"
  define d where "d = t div 86400000"
  define w where "w = t mod 86400000"
  define y where "y = YearFromDay d"
  define k where "k = d - DayFromYear y"
  define m where "m = MonthFromDay (isLeapYear y) k"
  define hh where "hh = w div 3600000"
  define mm where "mm = (w div 60000) mod 60"
  define ss where "ss = (w div 1000) mod 60"
  define ms where "ms = w mod 1000"
  define dd where "dd = k - firstDayOfMonth (isLeapYear y) m + 1"
  have c: "tsToObj ts off = \<lparr> year = y, month = m + 1, day = dd,
           hour = hh, minute = mm, second = ss, millisecond = ms \<rparr>"
    unfolding hh_def mm_def ss_def ms_def dd_def
    by (rule tsToObj_unfold [OF t_def d_def w_def y_def k_def m_def])
  have tod: "hh * 3600000 + mm * 60000 + ss * 1000 + ms = w"
    unfolding hh_def mm_def ss_def ms_def by (rule time_of_day_split)
  have r: "0 \<le> m" "m \<le> 11"
    using MonthFromDay_range [of "isLeapYear y" k] unfolding m_def by simp_all
  have md: "MakeDay y m dd = d"
    using MakeDay_in_year [OF r, of y dd] unfolding k_def dd_def by simp
  have "objToLocalTS (tsToObj ts off)
          = MakeDay y m dd * 86400000 + hh * 3600000 + mm * 60000 + ss * 1000 + ms"
    unfolding c objToLocalTS_def by simp
  also have "\<dots> = d * 86400000 + w" unfolding md using tod by linarith
  also have "\<dots> = t" unfolding d_def w_def by simp
  finally show ?thesis unfolding t_def .
qed

section \<open>Facts about moving a timestamp\<close>

lemma fixOffset_form:
  "\<exists>o'. fst (fixOffset l o1 tz) = l - o' * 60 * 1000 \<and> o' \<in> range tz"
proof -
  define g where "g = l - o1 * 60 * 1000"
  define o2 where "o2 = tz g"
  define g2 where "g2 = g - (o2 - o1) * 60 * 1000"
  define o3 where "o3 = tz g2"
  have f: "fixOffset l o1 tz = (if o1 = o2 then (g, o1) else if o2 = o3 then (g2, o2)
            else (l - min o2 o3 * 60 * 1000, max o2 o3))"
    unfolding fixOffset_def g_def o2_def g2_def o3_def Let_def ..
  have r2: "o2 \<in> range tz" "o3 \<in> range tz" unfolding o2_def o3_def by simp_all
  then have rm: "min o2 o3 \<in> range tz" by (simp add: min_def)
  have e2: "g2 = l - o2 * 60 * 1000" unfolding g2_def g_def by (simp add: algebra_simps)
  show ?thesis
  proof (cases "o1 = o2")
    case True
    then have "fst (fixOffset l o1 tz) = l - o2 * 60 * 1000" using f g_def by simp
    then show ?thesis using r2 by blast
  next
    case n1: False
    show ?thesis
    proof (cases "o2 = o3")
      case True
      then have "fst (fixOffset l o1 tz) = l - o2 * 60 * 1000" using f n1 e2 by simp
      then show ?thesis using r2 by blast
    next
      case False
      then have "fst (fixOffset l o1 tz) = l - min o2 o3 * 60 * 1000" using f n1 by simp
      then show ?thesis using rm by blast
    qed
  qed
qed

lemma fixOffset_stable:
  assumes "tz (l - o1 * 60 * 1000) = o1"
  shows "fst (fixOffset l o1 tz) = l - o1 * 60 * 1000"
  using assms by (simp add: fixOffset_def Let_def)

lemma daysInMonth_ge_28: "28 \<le> daysInMonth y mo"
proof -
  define mm where "mm = (mo - 1) mod 12"
  have r: "0 \<le> mm" "mm \<le> 11" unfolding mm_def by simp_all
  have c: "mm = 0 \<or> mm = 1 \<or> mm = 2 \<or> mm = 3 \<or> mm = 4 \<or> mm = 5 \<or> mm = 6 \<or> mm = 7
      \<or> mm = 8 \<or> mm = 9 \<or> mm = 10 \<or> mm = 11" by (rule month_cases [OF r])
  have d: "daysInMonth y mo = (if mm + 1 = 2 then (if isLeapYear (y + (mo - (mm + 1)) div 12) then 29 else 28)
         else [31, 0, 31, 30, 31, 30, 31, 31, 30, 31, 30, 31] ! nat (mm + 1 - 1))"
    unfolding daysInMonth_def mm_def Let_def ..
  show ?thesis unfolding d using c by (elim disjE) simp_all
qed

lemma MakeDay_next_month:
  assumes "1 \<le> mo" "mo \<le> 12"
  shows "MakeDay y mo d' = MakeDay y (mo - 1) d + daysInMonth y mo + d' - d"
proof (cases "mo = 12")
  case True
  have a: "MakeDay y 12 d' = DayFromYear (y + 1) + d' - 1"
    by (simp add: MakeDay_def Let_def firstDayOfMonth_def)
  have b: "MakeDay y 11 d = DayFromYear y + firstDayOfMonth (isLeapYear y) 11 + d - 1"
    by (simp add: MakeDay_in_year)
  show ?thesis unfolding True using a b DayFromYear_Suc [of y] firstDayOfMonth_last [of y] by simp
next
  case False
  then have r: "0 \<le> mo - 1" "mo - 1 \<le> 10" "0 \<le> mo" "mo \<le> 11" using assms by linarith+
  have a: "MakeDay y mo d' = DayFromYear y + firstDayOfMonth (isLeapYear y) mo + d' - 1"
    by (rule MakeDay_in_year [OF r(3,4)])
  have b: "MakeDay y (mo - 1) d = DayFromYear y + firstDayOfMonth (isLeapYear y) (mo - 1) + d - 1"
    using r by (intro MakeDay_in_year) linarith+
  have n: "firstDayOfMonth (isLeapYear y) mo
             = firstDayOfMonth (isLeapYear y) (mo - 1) + daysInMonth y mo"
    using firstDayOfMonth_next [OF r(1,2), of y] by simp
  show ?thesis unfolding a b n by simp
qed

lemma MakeDay_shift_date: "MakeDay y m (d + n) = MakeDay y m d + n"
  by (simp add: MakeDay_def Let_def)

lemma objToLocalTS_update:
  "objToLocalTS (c \<lparr> year := y, month := m, day := d \<rparr>)
     = objToLocalTS c + (MakeDay y (m - 1) d - MakeDay (year c) (month c - 1) (day c)) * 86400000"
  by (simp add: objToLocalTS_def algebra_simps)

lemma adjustTime_unfold:
  assumes "c = tsToObj ts (tz ts)"
  shows "adjustTime tz ts dur =
     (let m = month c + months dur;
          d = min (day c) (daysInMonth (year c) m) + days dur;
          millisToAdd = hours dur * 3600000 + minutes dur * 60000 + seconds dur * 1000;
          localTS = ts + tz ts * 60 * 1000
             + (MakeDay (year c) (m - 1) d - MakeDay (year c) (month c - 1) (day c)) * 86400000;
          ts' = fst (fixOffset localTS (tz ts) tz)
      in if millisToAdd \<noteq> 0 then ts' + millisToAdd else ts')"
  unfolding adjustTime_def Let_def objToLocalTS_update assms tsToObj_roundtrip ..

lemma monthAddCalendar_advance:
  assumes "zoneBounded tz"
  shows "ts + 26 * 86400000 \<le> monthAddCalendar tz ts 1"
proof -
  define c where "c = tsToObj ts (tz ts)"
  define mo where "mo = month c"
  define d where "d = day c"
  define y where "y = year c"
  define d' where "d' = min d (daysInMonth y (mo + 1))"
  define l where "l = ts + tz ts * 60 * 1000 + (MakeDay y mo d' - MakeDay y (mo - 1) d) * 86400000"
  have v: "1 \<le> mo" "mo \<le> 12" "1 \<le> d" "d \<le> daysInMonth y mo"
    using tsToObj_valid [of ts "tz ts"] unfolding validDate_def c_def mo_def d_def y_def by simp_all
  have a: "monthAddCalendar tz ts 1 = fst (fixOffset l (tz ts) tz)"
    unfolding monthAddCalendar_def dt_plus_def adjustTime_unfold [where tz = tz and ts = ts, OF c_def]
    by (simp add: Let_def l_def d'_def mo_def d_def y_def noDuration_def)
  have nm: "MakeDay y mo d' - MakeDay y (mo - 1) d = daysInMonth y mo + d' - d"
    using MakeDay_next_month [OF v(1,2), of y d' d] by simp
  define n where "n = daysInMonth y mo + d' - d"
  have "28 \<le> daysInMonth y mo + d' - d"
  proof (cases "d \<le> daysInMonth y (mo + 1)")
    case True
    then have "d' = d" unfolding d'_def by simp
    then show ?thesis using daysInMonth_ge_28 [of y mo] by simp
  next
    case False
    then have "d' = daysInMonth y (mo + 1)" unfolding d'_def by simp
    then show ?thesis using daysInMonth_ge_28 [of y "mo + 1"] v(4) by linarith
  qed
  then have "28 \<le> n" unfolding n_def .
  then have lb: "ts + tz ts * 60 * 1000 + 28 * 86400000 \<le> l"
    unfolding l_def nm n_def [symmetric] by linarith
  obtain o' where o': "fst (fixOffset l (tz ts) tz) = l - o' * 60 * 1000" "o' \<in> range tz"
    using fixOffset_form [of l "tz ts" tz] by blast
  have "- 1440 \<le> tz ts" "o' \<le> 1440" using assms o'(2) unfolding zoneBounded_def by auto
  then show ?thesis unfolding a o'(1) using lb by linarith
qed

lemma adjustTime_days_fix:
  assumes "months dur = 0" "hours dur = 0" "minutes dur = 0" "seconds dur = 0"
  shows "adjustTime tz ts dur
           = fst (fixOffset (ts + tz ts * 60 * 1000 + days dur * 86400000) (tz ts) tz)"
proof -
  define c where "c = tsToObj ts (tz ts)"
  have v: "day c \<le> daysInMonth (year c) (month c)"
    using tsToObj_valid [of ts "tz ts"] unfolding validDate_def c_def by simp
  then have m: "min (day c) (daysInMonth (year c) (month c)) = day c" by simp
  show ?thesis
    unfolding adjustTime_unfold [where tz = tz and ts = ts, OF c_def] using assms
    by (simp add: Let_def m MakeDay_shift_date)
qed

lemma adjustTime_days_only:
  assumes "months dur = 0" "hours dur = 0" "minutes dur = 0" "seconds dur = 0"
    and "tz (ts + days dur * 86400000) = tz ts"
  shows "adjustTime tz ts dur = ts + days dur * 86400000"
proof -
  define l where "l = ts + tz ts * 60 * 1000 + days dur * 86400000"
  have a: "adjustTime tz ts dur = fst (fixOffset l (tz ts) tz)"
    unfolding l_def by (rule adjustTime_days_fix [OF assms(1-4)])
  have "l - tz ts * 60 * 1000 = ts + days dur * 86400000" unfolding l_def by simp
  then have "fst (fixOffset l (tz ts) tz) = l - tz ts * 60 * 1000"
    using assms(5) by (intro fixOffset_stable) simp
  then show ?thesis unfolding a l_def by simp
qed

lemma adjustTime_time_only:
  assumes "months dur = 0" "days dur = 0"
  shows "adjustTime tz ts dur
           = ts + (hours dur * 3600000 + minutes dur * 60000 + seconds dur * 1000)"
proof -
  define c where "c = tsToObj ts (tz ts)"
  have v: "day c \<le> daysInMonth (year c) (month c)"
    using tsToObj_valid [of ts "tz ts"] unfolding validDate_def c_def by simp
  then have m: "min (day c) (daysInMonth (year c) (month c)) = day c" by simp
  define l where "l = ts + tz ts * 60 * 1000"
  have f: "fst (fixOffset l (tz ts) tz) = ts"
    using fixOffset_stable [of tz l "tz ts"] unfolding l_def by simp
  show ?thesis
    unfolding adjustTime_unfold [where tz = tz and ts = ts, OF c_def] using assms f
    by (simp add: Let_def m l_def)
qed

section \<open>Facts about the window resolver\<close>

lemma rollLoop_result:
  assumes z: "zoneBounded tz"
  shows "\<exists>w. rollLoop tz now s e r = Some w \<and> now < w_end w
           \<and> (now < e \<longrightarrow> w = \<lparr> w_start = s, w_end = e, w_rolled = r \<rparr>)
           \<and> (e \<le> now \<longrightarrow> e \<le> w_start w \<and> w_start w \<le> now \<and> w_rolled w)
           \<and> (s < e \<longrightarrow> w_start w < w_end w)"
proof (induction "nat (now + 1 - e)" arbitrary: s e r rule: less_induct)
  case less
  show ?case
  proof (cases "e \<le> now")
    case False
    then show ?thesis by (subst rollLoop.simps) simp
  next
    case True
    define e' where "e' = monthAddCalendar tz e 1"
    have adv: "e + 26 * 86400000 \<le> e'"
      unfolding e'_def by (rule monthAddCalendar_advance [OF z])
    then have lt: "nat (now + 1 - e') < nat (now + 1 - e)" using True by linarith
    have step: "rollLoop tz now s e r = rollLoop tz now e e' True"
      using True by (subst rollLoop.simps) (simp add: e'_def)
    obtain w where w: "rollLoop tz now e e' True = Some w" "now < w_end w"
        "now < e' \<longrightarrow> w = \<lparr> w_start = e, w_end = e', w_rolled = True \<rparr>"
        "e' \<le> now \<longrightarrow> e' \<le> w_start w \<and> w_start w \<le> now \<and> w_rolled w"
        "e < e' \<longrightarrow> w_start w < w_end w"
      using less [OF lt, of e True] by blast
    have "e \<le> w_start w \<and> w_start w \<le> now \<and> w_rolled w"
    proof (cases "now < e'")
      case True
      then have "w = \<lparr> w_start = e, w_end = e', w_rolled = True \<rparr>" using w(3) by simp
      then show ?thesis using \<open>e \<le> now\<close> by simp
    next
      case False
      then show ?thesis using w(4) adv by simp
    qed
    moreover have "w_start w < w_end w" using w(5) adv by simp
    ultimately show ?thesis using step w(1,2) True by simp
  qed
qed

lemma rollLoop_mono:
  assumes z: "zoneBounded tz" and "now1 \<le> now2" "s \<le> e"
  shows "\<exists>w1 w2. rollLoop tz now1 s e r1 = Some w1 \<and> rollLoop tz now2 s e r2 = Some w2
           \<and> w_start w1 \<le> w_start w2"
  using assms(2,3)
proof (induction "nat (now2 + 1 - e)" arbitrary: s e r1 r2 rule: less_induct)
  case less
  obtain w1 where w1: "rollLoop tz now1 s e r1 = Some w1"
      "now1 < e \<longrightarrow> w1 = \<lparr> w_start = s, w_end = e, w_rolled = r1 \<rparr>"
    using rollLoop_result [OF z, of now1 s e r1] by blast
  obtain w2 where w2: "rollLoop tz now2 s e r2 = Some w2"
      "now2 < e \<longrightarrow> w2 = \<lparr> w_start = s, w_end = e, w_rolled = r2 \<rparr>"
      "e \<le> now2 \<longrightarrow> e \<le> w_start w2 \<and> w_start w2 \<le> now2 \<and> w_rolled w2"
    using rollLoop_result [OF z, of now2 s e r2] by blast
  show ?case
  proof (cases "e \<le> now2")
    case False
    then have "now1 < e" "now2 < e" using less.prems by simp_all
    then show ?thesis using w1 w2 by simp
  next
    case True
    show ?thesis
    proof (cases "e \<le> now1")
      case False
      then have "w_start w1 = s" using w1(2) by simp
      then show ?thesis using w1(1) w2(1,3) True less.prems(2) by simp
    next
      case e1: True
      define e' where "e' = monthAddCalendar tz e 1"
      have adv: "e + 26 * 86400000 \<le> e'"
        unfolding e'_def by (rule monthAddCalendar_advance [OF z])
      then have lt: "nat (now2 + 1 - e') < nat (now2 + 1 - e)" using True by linarith
      have s1: "rollLoop tz now1 s e r1 = rollLoop tz now1 e e' True"
        using e1 by (subst rollLoop.simps) (simp add: e'_def)
      have s2: "rollLoop tz now2 s e r2 = rollLoop tz now2 e e' True"
        using True by (subst rollLoop.simps) (simp add: e'_def)
      have "e \<le> e'" using adv by simp
      from less.hyps [OF lt less.prems(1) this, of True True]
      show ?thesis unfolding s1 s2 .
    qed
  qed
qed

section \<open>Facts about the milestones\<close>

lemma plusMilliseconds_eq: "plusMilliseconds tz ts ms = of_int ts + ms"
proof -
  define c where "c = tsToObj ts (tz ts)"
  have v: "day c \<le> daysInMonth (year c) (month c)"
    using tsToObj_valid [of ts "tz ts"] unfolding validDate_def c_def by simp
  then have m: "c \<lparr> day := min (day c) (daysInMonth (year c) (month c)) \<rparr> = c" by simp
  have l: "objToLocalTS c = ts + tz ts * 60 * 1000" unfolding c_def by (rule tsToObj_roundtrip)
  have f: "fst (fixOffset (ts + tz ts * 60 * 1000) (tz ts) tz) = ts"
    using fixOffset_stable [of tz "ts + tz ts * 60 * 1000" "tz ts"] by simp
  show ?thesis
    unfolding plusMilliseconds_def Let_def c_def [symmetric] m l f by simp
qed

lemma lastDay_eq: "lastDay (milestoneTimes tz s e) = e - 24 * 3600000"
  by (simp add: milestoneTimes_def dt_minus_def adjustTime_time_only negate_def noDuration_def)

lemma threeDays_eq:
  assumes "tz (e - 3 * 86400000) = tz e"
  shows "threeDays (milestoneTimes tz s e) = e - 3 * 86400000"
proof -
  define dur where "dur = negate (noDuration \<lparr> days := 3 \<rparr>)"
  have d: "months dur = 0" "hours dur = 0" "minutes dur = 0" "seconds dur = 0" "days dur = - 3"
    unfolding dur_def by (simp_all add: negate_def noDuration_def)
  have "adjustTime tz e dur = e + days dur * 86400000"
    using assms d by (intro adjustTime_days_only) simp_all
  then show ?thesis unfolding d by (simp add: milestoneTimes_def dt_minus_def dur_def)
qed




section \<open>Facts about the reminders effect\<close>

lemma renewal_arg: "of_int (dt_minus tz e (noDuration \<lparr> minutes := 5 \<rparr>)) = (of_int (e - 5 * 60000) :: rat)"
  by (simp add: dt_minus_def adjustTime_time_only negate_def noDuration_def)


lemma schedule_armed:
  "armed (schedule enabled perm n key a st)
     = armed st @ (if of_int n < a \<and> enabled key \<and> perm \<noteq> PermissionDefault
                   then [(key, n, a - of_int n)] else [])"
  by (simp add: schedule_def setTimer_def armed_def Let_def)

lemma schedule_awaiting:
  "awaiting (schedule enabled perm n key a st)
     = awaiting st @ (if of_int n < a \<and> enabled key \<and> perm = PermissionDefault
                      then [(key, a - of_int n)] else [])"
  by (simp add: schedule_def setTimer_def Let_def)

lemma clearTimeouts_awaiting: "awaiting (clearTimeouts st) = awaiting st"
  by (simp add: clearTimeouts_def)

lemma scheduledAt_simps:
  "scheduledAt tz s e Halfway = halfway (milestoneTimes tz s e)"
  "scheduledAt tz s e ThreeDays = of_int (threeDays (milestoneTimes tz s e))"
  "scheduledAt tz s e LastDay = of_int (lastDay (milestoneTimes tz s e))"
  "scheduledAt tz s e Renewal = of_int (dt_minus tz (renewal (milestoneTimes tz s e)) (noDuration \<lparr> minutes := 5 \<rparr>))"
  by (simp_all add: scheduledAt_def milestoneAt_def renewal_arg milestoneTimes_def)

lemma remindersEffect_armed:
  "armed (remindersEffect enabled tz s e perm clock st)
     = armed (clearTimeouts st)
       @ newTimer enabled perm clock tz s e Halfway
       @ newTimer enabled perm clock tz s e ThreeDays
       @ newTimer enabled perm clock tz s e LastDay
       @ newTimer enabled perm clock tz s e Renewal"
  unfolding remindersEffect_def Let_def schedule_armed newTimer_def scheduledAt_simps
  by simp

lemma remindersEffect_awaiting:
  "awaiting (remindersEffect enabled tz s e perm clock st)
     = awaiting st
       @ newAwaiting enabled perm clock tz s e Halfway
       @ newAwaiting enabled perm clock tz s e ThreeDays
       @ newAwaiting enabled perm clock tz s e LastDay
       @ newAwaiting enabled perm clock tz s e Renewal"
  unfolding remindersEffect_def Let_def schedule_awaiting newAwaiting_def scheduledAt_simps
    clearTimeouts_awaiting
  by simp

lemma newTimer_filter:
  "filter (\<lambda>p. fst p = key) (newTimer enabled perm clock tz s e key')
     = (if key' = key then newTimer enabled perm clock tz s e key else [])"
  by (simp add: newTimer_def)

lemma newAwaiting_filter:
  "filter (\<lambda>p. fst p = key) (newAwaiting enabled perm clock tz s e key')
     = (if key' = key then newAwaiting enabled perm clock tz s e key else [])"
  by (simp add: newAwaiting_def)

lemma remindersEffect_armedFor:
  "armedFor key (remindersEffect enabled tz s e perm clock st)
     = armedFor key (clearTimeouts st) @ newTimer enabled perm clock tz s e key"
  unfolding armedFor_def remindersEffect_armed filter_append newTimer_filter
  by (cases key) simp_all

lemma remindersEffect_awaitingFor:
  "awaitingFor key (remindersEffect enabled tz s e perm clock st)
     = awaitingFor key st @ newAwaiting enabled perm clock tz s e key"
  unfolding awaitingFor_def remindersEffect_awaiting filter_append newAwaiting_filter
  by (cases key) simp_all

lemma scheduledAt_le_milestone:
  "scheduledAt tz s e key \<le> milestoneAt (milestoneTimes tz s e) key"
  by (cases key) (simp_all add: scheduledAt_def milestoneAt_def milestoneTimes_def)

text \<open>
  With the permission settled, every timeout the effect sets is named in
  \<open>timers.current\<close>, so the cleanup clears it, and running the effect, its cleanup and the
  effect again leaves the timeouts of a single run.
\<close>

lemma update_new_key:
  "k \<notin> fst ` set al \<Longrightarrow> AList.update k v al = al @ [(k, v)]"
  by (induction al) auto

lemma tracked_start: "timers_current st0 = [] \<Longrightarrow> tracked st0 st0 {}"
  by (simp add: tracked_def)

lemma tracked_schedule:
  assumes "tracked st0 st K" and "key \<notin> K" and "perm \<noteq> PermissionDefault"
  shows "tracked st0 (schedule enabled perm n key a st) (insert key K)"
proof (cases "a - of_int n \<le> 0 \<or> \<not> enabled key")
  case True
  then have "schedule enabled perm n key a st = st" by (simp add: schedule_def Let_def)
  then show ?thesis using assms(1) by (auto simp add: tracked_def)
next
  case False
  obtain new where new: "browser_timeouts st = browser_timeouts st0 @ new"
      "map (\<lambda>t. (t_key t, t_id t)) new = timers_current st"
      "\<forall>t\<in>set new. next_id st0 \<le> t_id t \<and> t_id t < next_id st"
      "fst ` set (timers_current st) \<subseteq> K" "next_id st0 \<le> next_id st"
    using assms(1) unfolding tracked_def by blast
  have nk: "key \<notin> fst ` set (timers_current st)" using new(4) assms(2) by blast
  define t where "t = \<lparr> t_id = next_id st, t_key = key, t_set = n, t_delay = a - of_int n \<rparr>"
  have s: "schedule enabled perm n key a st
      = st \<lparr> timers_current := timers_current st @ [(key, next_id st)],
             browser_timeouts := browser_timeouts st @ [t],
             next_id := next_id st + 1 \<rparr>"
    using False assms(3) by (simp add: schedule_def setTimer_def Let_def update_new_key [OF nk] t_def)
  show ?thesis
    unfolding tracked_def s
    by (rule exI [of _ "new @ [t]"]) (use new in \<open>auto simp add: t_def\<close>)
qed

lemma tracked_clear:
  assumes "tracked st0 st K" and "\<forall>t\<in>set (browser_timeouts st0). t_id t < next_id st0"
  shows "browser_timeouts (clearTimeouts st) = browser_timeouts st0"
proof -
  obtain new where new: "browser_timeouts st = browser_timeouts st0 @ new"
      "map (\<lambda>t. (t_key t, t_id t)) new = timers_current st"
      "\<forall>t\<in>set new. next_id st0 \<le> t_id t \<and> t_id t < next_id st"
    using assms(1) unfolding tracked_def by blast
  have ids: "snd ` set (timers_current st) = t_id ` set new"
    unfolding new(2) [symmetric] by (auto simp add: image_iff)
  have a: "filter (\<lambda>t. t_id t \<notin> t_id ` set new) (browser_timeouts st0) = browser_timeouts st0"
    using assms(2) new(3) by (intro filter_True) fastforce
  have b: "filter (\<lambda>t. t_id t \<notin> t_id ` set new) new = []"
    by (simp add: filter_empty_conv)
  show ?thesis by (simp add: clearTimeouts_def new(1) ids a b)
qed

lemma remindersEffect_tracked:
  assumes "perm \<noteq> PermissionDefault"
  shows "tracked (clearTimeouts st) (remindersEffect enabled tz s e perm clock st) UNIV"
proof -
  let ?m = "milestoneTimes tz s e"
  let ?st0 = "clearTimeouts st"
  let ?st1 = "schedule enabled perm (clock Halfway) Halfway (halfway ?m) ?st0"
  let ?st2 = "schedule enabled perm (clock ThreeDays) ThreeDays (of_int (threeDays ?m)) ?st1"
  let ?st3 = "schedule enabled perm (clock LastDay) LastDay (of_int (lastDay ?m)) ?st2"
  let ?st4 = "schedule enabled perm (clock Renewal) Renewal
                (of_int (dt_minus tz (renewal ?m) (noDuration \<lparr> minutes := 5 \<rparr>))) ?st3"
  have 0: "tracked ?st0 ?st0 {}" by (rule tracked_start) (simp add: clearTimeouts_def)
  have 1: "tracked ?st0 ?st1 {Halfway}"
    using tracked_schedule [OF 0 _ assms] by simp
  have 2: "tracked ?st0 ?st2 {ThreeDays, Halfway}"
    using tracked_schedule [OF 1 _ assms, of ThreeDays] by simp
  have 3: "tracked ?st0 ?st3 {LastDay, ThreeDays, Halfway}"
    using tracked_schedule [OF 2 _ assms, of LastDay] by simp
  have 4: "tracked ?st0 ?st4 {Renewal, LastDay, ThreeDays, Halfway}"
    using tracked_schedule [OF 3 _ assms, of Renewal] by simp
  have "tracked ?st0 ?st4 UNIV"
    using 4 unfolding tracked_def by blast
  then show ?thesis by (simp add: remindersEffect_def Let_def)
qed

lemma clearTimeouts_fresh:
  "\<forall>t\<in>set (browser_timeouts st). t_id t < next_id st
     \<Longrightarrow> \<forall>t\<in>set (browser_timeouts (clearTimeouts st)). t_id t < next_id (clearTimeouts st)"
  by (simp add: clearTimeouts_def)

lemma clearTimeouts_idem: "clearTimeouts (clearTimeouts st) = clearTimeouts st"
  by (simp add: clearTimeouts_def)

lemma armed_cong: "browser_timeouts a = browser_timeouts b \<Longrightarrow> armed a = armed b"
  by (simp add: armed_def)

lemma rearm_idempotent_when_permission_settled:
  assumes "perm \<noteq> PermissionDefault"
    and "\<forall>t\<in>set (browser_timeouts st). t_id t < next_id st"
  shows "armed (remindersEffect enabled tz s e perm clock
            (remindersCleanup (remindersEffect enabled tz s e perm clock st)))
           = armed (remindersEffect enabled tz s e perm clock st)"
proof -
  let ?st1 = "remindersEffect enabled tz s e perm clock st"
  have "browser_timeouts (clearTimeouts ?st1) = browser_timeouts (clearTimeouts st)"
    using tracked_clear [OF remindersEffect_tracked [OF assms(1)] clearTimeouts_fresh [OF assms(2)]] .
  then have "armed (clearTimeouts (clearTimeouts ?st1)) = armed (clearTimeouts st)"
    unfolding clearTimeouts_idem by (rule armed_cong)
  then show ?thesis by (simp add: remindersEffect_armed remindersCleanup_def)
qed

text \<open>
  The check in \<open>schedule\<close>: for a key whose milestone instant is at or before the
  clock reading of its call, the effect sets no timeout and suspends no call.
\<close>

lemma past_reading_not_scheduled:
  assumes "milestoneAt (milestoneTimes tz start end) key \<le> of_int (clock key)"
  shows "armedFor key (remindersEffect enabled tz start end perm clock st)
           = armedFor key (clearTimeouts st)
         \<and> awaitingFor key (remindersEffect enabled tz start end perm clock st)
           = awaitingFor key st"
proof -
  have "scheduledAt tz start end key \<le> of_int (clock key)"
    using scheduledAt_le_milestone [of tz start "end" key] assms by simp
  then show ?thesis
    by (simp add: remindersEffect_armedFor remindersEffect_awaitingFor newTimer_def
        newAwaiting_def)
qed

section \<open>Facts about the spread of objects\<close>

lemma map_of_spread: "map_of (spread target source) = map_of target ++ map_of (rev source)"
  unfolding spread_def
proof (induction source arbitrary: target)
  case Nil
  then show ?case by simp
next
  case (Cons p ps)
  obtain k v where p: "p = (k, v)" by (cases p)
  have "map_of (foldl (\<lambda>acc (k, v). AList.update k v acc) target (p # ps))
          = map_of (AList.update k v target) ++ map_of (rev ps)"
    using Cons.IH [of "AList.update k v target"] by (simp add: p)
  also have "\<dots> = map_of target ++ map_of (rev (p # ps))"
    by (simp add: p update_conv' map_add_upd_left)
  finally show ?case .
qed


section \<open>Facts about the default cycle and the sample record\<close>

lemma zoneBounded_kathmandu: "zoneBounded kathmandu"
  by (simp add: zoneBounded_def kathmandu_def)

lemma monthAdd_default_end: "monthAddCalendar kathmandu 1758331980000 1 = 1760923980000"
  by code_simp

lemma rollLoop_stop:
  "now < e \<Longrightarrow> rollLoop tz now s e r = Some \<lparr> w_start = s, w_end = e, w_rolled = r \<rparr>"
  by (subst rollLoop.simps) simp

lemma rollLoop_step:
  "e \<le> now \<Longrightarrow> rollLoop tz now s e r = rollLoop tz now e (monthAddCalendar tz e 1) True"
  by (subst rollLoop.simps) simp

lemma roll_default_scenario_A:
  "rollCycleToNow defaultCycle 1755749700000
     = Some \<lparr> w_start = 1755653580000, w_end = 1758331980000, w_rolled = False \<rparr>"
  by (simp add: rollCycleToNow_def defaultCycle_def rollLoop_stop)

lemma roll_default_scenario_B:
  "rollCycleToNow defaultCycle 1758737700000
     = Some \<lparr> w_start = 1758331980000, w_end = 1760923980000, w_rolled = True \<rparr>"
  by (simp add: rollCycleToNow_def defaultCycle_def rollLoop_step monthAdd_default_end
      rollLoop_stop)

lemma rollCycleToNow_start_lower:
  assumes "zoneBounded (timezone cycle)" and "startISO cycle \<le> endISO cycle"
  shows "\<exists>w. rollCycleToNow cycle now = Some w \<and> startISO cycle \<le> w_start w"
proof (cases "now < startISO cycle")
  case True
  then show ?thesis by (simp add: rollCycleToNow_def)
next
  case False
  obtain w where w: "rollLoop (timezone cycle) now (startISO cycle) (endISO cycle) False = Some w"
      "now < endISO cycle \<longrightarrow>
         w = \<lparr> w_start = startISO cycle, w_end = endISO cycle, w_rolled = False \<rparr>"
      "endISO cycle \<le> now \<longrightarrow> endISO cycle \<le> w_start w \<and> w_start w \<le> now \<and> w_rolled w"
    using rollLoop_result [OF assms(1), of now "startISO cycle" "endISO cycle" False] by blast
  have "startISO cycle \<le> w_start w"
  proof (cases "now < endISO cycle")
    case True
    then show ?thesis using w(2) by simp
  next
    case False
    then show ?thesis using w(3) assms(2) by simp
  qed
  then show ?thesis using False w(1) by (simp add: rollCycleToNow_def)
qed

lemma default_milestones:
  "milestoneTimes kathmandu 1755653580000 1758331980000
     = \<lparr> halfway = 1756992780000, threeDays = 1758072780000, lastDay = 1758245580000,
         renewal = 1758331980000 \<rparr>"
  by code_simp

lemma default_scheduledAt:
  "scheduledAt kathmandu 1755653580000 1758331980000 Halfway = 1756992780000"
  "scheduledAt kathmandu 1755653580000 1758331980000 ThreeDays = 1758072780000"
  "scheduledAt kathmandu 1755653580000 1758331980000 LastDay = 1758245580000"
  "scheduledAt kathmandu 1755653580000 1758331980000 Renewal = 1758331680000"
  by (simp_all add: scheduledAt_def milestoneAt_def default_milestones)

lemma armed_initial: "armed (clearTimeouts initialScheduler) = []"
  by (simp add: armed_def clearTimeouts_def initialScheduler_def)

lemma loadState_fallback:
  "loadState parse Unavailable fallback = fallback"
  "loadState parse Missing fallback = fallback"
  "loadState parse (Item []) fallback = fallback"
  "parse raw = Inl err \<Longrightarrow> loadState parse (Item raw) fallback = fallback"
  by (simp_all add: loadState_def loadState_try_def getItem_def)

lemma loadState_parsed:
  "raw \<noteq> [] \<Longrightarrow> parse raw = Inr v
     \<Longrightarrow> loadState parse (Item raw) fallback = spread fallback (ownProps v)"
  by (simp add: loadState_def loadState_try_def getItem_def)

lemma getProp_spread:
  "getProp (spread fallback (ownProps v)) k
     = (case storedProp v k of Some x \<Rightarrow> Some x | None \<Rightarrow> getProp fallback k)"
  unfolding getProp_def storedProp_def map_of_spread map_add_def ..

lemma storedText_nonempty: "storedText \<noteq> []"
  by (simp add: storedText_def)

lemma load_stored:
  "loadState parseStored (Item storedText) DEFAULT_CYCLE
     = [(''plan'', JStr ''ChatGPT Plus''),
        (''timezone'', JStr ''Asia/Kathmandu''),
        (''startISO'', JStr ''2025-08-20T07:18:00+05:45''),
        (''endISO'', JStr ''2025-09-20T07:18:00+05:45''),
        (''reminders'', JObj [(''halfway'', JBool False)]),
        (''theme'', JStr ''dark''),
        (''hourFormat'', JStr ''12h'')]"
  using storedText_nonempty
  by (simp add: loadState_parsed [of storedText parseStored storedValue] parseStored_def
      storedValue_def ownProps_def spread_def DEFAULT_CYCLE_def)

section \<open>Facts about the progress computation\<close>

lemma clamp_bounds: "mn \<le> mx \<Longrightarrow> mn \<le> clamp n mn mx \<and> clamp n mn mx \<le> mx"
  by (simp add: clamp_def)

section \<open>The claims\<close>


text \<open>
  C1. For a cycle with \<open>endISO > startISO\<close> (in a zone whose offsets stay within a day
  of UTC) and every instant \<open>now\<close>, \<open>rollCycleToNow\<close> returns a window; if
  \<open>now >= startISO\<close> then \<open>start <= now < end\<close>, and if \<open>now < startISO\<close> the window
  is the anchor window with \<open>rolled = false\<close>. The window is never empty.
\<close>

theorem window_containment:
  assumes "zoneBounded (timezone cycle)" and "startISO cycle < endISO cycle"
  shows "\<exists>w. rollCycleToNow cycle now = Some w
           \<and> (startISO cycle \<le> now \<longrightarrow> w_start w \<le> now \<and> now < w_end w)
           \<and> (now < startISO cycle \<longrightarrow>
                 w = \<lparr> w_start = startISO cycle, w_end = endISO cycle, w_rolled = False \<rparr>)
           \<and> w_start w < w_end w"
proof (cases "now < startISO cycle")
  case True
  then show ?thesis using assms(2) by (simp add: rollCycleToNow_def)
next
  case False
  obtain w where w: "rollLoop (timezone cycle) now (startISO cycle) (endISO cycle) False = Some w"
      "now < w_end w"
      "now < endISO cycle \<longrightarrow>
         w = \<lparr> w_start = startISO cycle, w_end = endISO cycle, w_rolled = False \<rparr>"
      "endISO cycle \<le> now \<longrightarrow> endISO cycle \<le> w_start w \<and> w_start w \<le> now \<and> w_rolled w"
      "startISO cycle < endISO cycle \<longrightarrow> w_start w < w_end w"
    using rollLoop_result [OF assms(1), of now "startISO cycle" "endISO cycle" False] by blast
  have "w_start w \<le> now"
  proof (cases "now < endISO cycle")
    case True
    then have "w_start w = startISO cycle" using w(3) by simp
    then show ?thesis using False by simp
  next
    case False
    then show ?thesis using w(4) by simp
  qed
  moreover have "rollCycleToNow cycle now = Some w"
    using False w(1) by (simp add: rollCycleToNow_def)
  ultimately show ?thesis using False w(2,5) assms(2) by simp
qed

theorem window_containment_witness:
  "zoneBounded (timezone defaultCycle) \<and> startISO defaultCycle < endISO defaultCycle
     \<and> rollCycleToNow defaultCycle 1758737700000
          = Some \<lparr> w_start = 1758331980000, w_end = 1760923980000, w_rolled = True \<rparr>
     \<and> rollCycleToNow defaultCycle 1755000000000
          = Some \<lparr> w_start = 1755653580000, w_end = 1758331980000, w_rolled = False \<rparr>"
proof -
  have z: "zoneBounded (timezone defaultCycle)"
    by (simp add: defaultCycle_def zoneBounded_kathmandu)
  have lt: "startISO defaultCycle < endISO defaultCycle" by (simp add: defaultCycle_def)
  obtain w where w: "rollCycleToNow defaultCycle 1755000000000 = Some w"
    "1755000000000 < startISO defaultCycle \<longrightarrow>
       w = \<lparr> w_start = startISO defaultCycle, w_end = endISO defaultCycle, w_rolled = False \<rparr>"
    using window_containment [OF z lt, of 1755000000000] by blast
  have "w = \<lparr> w_start = 1755653580000, w_end = 1758331980000, w_rolled = False \<rparr>"
    using w(2) by (simp add: defaultCycle_def)
  then show ?thesis using z lt w(1) roll_default_scenario_B by simp
qed

text \<open>
  C2 (as stated, refuted). In the default window with every reminder enabled and the
  permission granted, the renewal instant is the end of the window. One minute before the
  end the effect arms nothing, although the renewal instant is still ahead; ten minutes
  before the end it arms the renewal reminder with a delay of five minutes, which is due
  five minutes before the renewal instant.
\<close>

theorem renewal_reminder_not_at_renewal_instant:
  "milestoneAt (milestoneTimes kathmandu 1755653580000 1758331980000) Renewal
       = of_int 1758331980000
     \<and> armed (remindersEffect (\<lambda>_. True) kathmandu 1755653580000 1758331980000
          PermissionGranted (\<lambda>_. 1758331920000) initialScheduler) = []
     \<and> armed (remindersEffect (\<lambda>_. True) kathmandu 1755653580000 1758331980000
          PermissionGranted (\<lambda>_. 1758331380000) initialScheduler)
         = [(Renewal, 1758331380000, 300000)]"
  by (simp add: remindersEffect_armed newTimer_def default_scheduledAt armed_initial
      milestoneAt_def default_milestones)

text \<open>
  C2 (amended). When the permission is not pending (\<open>Notification.permission\<close> is not
  \<open>default\<close>), for every key whose flag is enabled and whose scheduled instant is
  strictly after the clock reading of its call, the effect sets exactly one new timeout for
  the key, at that reading and with the delay from the reading to the scheduled instant.
  The scheduled instant is the milestone's instant for the halfway, three-days and last-day
  reminders, and five minutes before the end of the window for the renewal reminder.
\<close>

theorem reminder_armed_for_scheduled_instant:
  assumes "enabled key" and "perm \<noteq> PermissionDefault"
    and "of_int (clock key) < scheduledAt tz start end key"
  shows "armedFor key (remindersEffect enabled tz start end perm clock st)
           = armedFor key (clearTimeouts st)
             @ [(key, clock key, scheduledAt tz start end key - of_int (clock key))]
         \<and> scheduledAt tz start end Renewal = of_int (end - 5 * 60000)
         \<and> scheduledAt tz start end Halfway = halfway (milestoneTimes tz start end)
         \<and> scheduledAt tz start end ThreeDays = of_int (threeDays (milestoneTimes tz start end))
         \<and> scheduledAt tz start end LastDay = of_int (lastDay (milestoneTimes tz start end))"
  using assms
  by (simp add: remindersEffect_armedFor newTimer_def scheduledAt_def milestoneAt_def)

theorem reminder_armed_for_scheduled_instant_witness:
  "PermissionGranted \<noteq> PermissionDefault
     \<and> (of_int 1755653581000 :: rat) < scheduledAt kathmandu 1755653580000 1758331980000 Halfway
     \<and> armedFor Halfway (remindersEffect (\<lambda>_. True) kathmandu 1755653580000 1758331980000
          PermissionGranted (\<lambda>_. 1755653581000) initialScheduler)
         = [(Halfway, 1755653581000, 1339199000)]"
proof -
  have p: "PermissionGranted \<noteq> PermissionDefault" by simp
  have l: "(of_int ((\<lambda>_. 1755653581000) Halfway) :: rat)
             < scheduledAt kathmandu 1755653580000 1758331980000 Halfway"
    by (simp add: default_scheduledAt)
  have e: "(\<lambda>_. True) Halfway" by simp
  have c: "armedFor Halfway (clearTimeouts initialScheduler) = []"
    by (simp add: armedFor_def armed_initial)
  from reminder_armed_for_scheduled_instant
    [of "\<lambda>_. True" Halfway PermissionGranted "\<lambda>_. 1755653581000" kathmandu
        1755653580000 1758331980000 initialScheduler, OF e p l]
  show ?thesis using p l c by (simp add: default_scheduledAt)
qed

text \<open>
  C3 (as stated, refuted). A cycle whose start and end coincide, resolved before its
  start, gives a window of length zero; the progress computation then divides zero by
  zero and returns \<open>NaN\<close>. Nothing fails.
\<close>

theorem zero_length_window_divides_by_zero:
  "rollCycleToNow (defaultCycle \<lparr> endISO := 1755653580000 \<rparr>) 1755000000000
       = Some \<lparr> w_start = 1755653580000, w_end = 1755653580000, w_rolled = False \<rparr>
     \<and> totalMs (computeProgress 1755653580000 1755653580000 1755000000000) = 0
     \<and> progress (computeProgress 1755653580000 1755653580000 1755000000000) = js_div 0 0
     \<and> js_div 0 0 = NaN"
  by (simp add: rollCycleToNow_def defaultCycle_def computeProgress_def clamp_def js_div_def)

text \<open>
  C3 (amended). The progress computation has no check of the window: for a window of
  length zero it returns the record with \<open>totalMs = 0\<close>, \<open>elapsedMs = 0\<close> and the
  fraction \<open>NaN\<close> (zero divided by zero), whatever \<open>now\<close> is; for every other window
  the fraction is a number.
\<close>

theorem progress_of_zero_length_window:
  "totalMs (computeProgress start start now) = 0
     \<and> elapsedMs (computeProgress start start now) = 0
     \<and> progress (computeProgress start start now) = NaN
     \<and> (start \<noteq> end \<longrightarrow> (\<exists>q. progress (computeProgress start end now) = Num q))"
  by (simp add: computeProgress_def clamp_def js_div_def Let_def)

theorem progress_of_zero_length_window_witness:
  "progress (computeProgress 1000 1000 1500) = NaN
     \<and> (1000::int) \<noteq> 2000
     \<and> progress (computeProgress 1000 2000 1500) = Num (1 / 2)"
proof -
  have ne: "(1000::int) \<noteq> 2000" by simp
  from progress_of_zero_length_window [where start = 1000 and now = 1500 and ?end = 2000]
  have "progress (computeProgress 1000 1000 1500) = NaN"
    and "\<exists>q. progress (computeProgress 1000 2000 1500) = Num q" using ne by simp_all
  moreover have "progress (computeProgress 1000 2000 1500) = Num (1 / 2)"
    by (simp add: computeProgress_def clamp_def js_div_def)
  ultimately show ?thesis by simp
qed




text \<open>
  C5 (as stated, refuted). The stored record
  \<open>{"theme":"dark","reminders":{"halfway":false}}\<close> misses the nested flags
  \<open>threeDays\<close>, \<open>lastDay\<close> and \<open>renewal\<close>. In the loaded cycle the stored
  \<open>reminders\<close> object has replaced the default one as a whole: the flag \<open>threeDays\<close> is
  undefined, not its default \<open>true\<close>.
\<close>

theorem nested_reminder_flags_not_defaulted:
  "reminderFlag DEFAULT_CYCLE ''threeDays'' = Some (JBool True)
     \<and> getProp (loadState parseStored (Item storedText) DEFAULT_CYCLE) ''reminders''
          = Some (JObj [(''halfway'', JBool False)])
     \<and> reminderFlag (loadState parseStored (Item storedText) DEFAULT_CYCLE) ''threeDays''
          = None"
proof -
  have "reminderFlag DEFAULT_CYCLE ''threeDays'' = Some (JBool True)"
    by (simp add: reminderFlag_def getProp_def DEFAULT_CYCLE_def)
  then show ?thesis unfolding load_stored by (simp add: reminderFlag_def getProp_def)
qed

text \<open>
  C5 (amended). \<open>loadState\<close> never raises. Unavailable storage, a missing or empty
  item and an unparseable text yield the fallback unchanged. For a text that parses, every
  top-level key takes the stored value when the stored value has the key and the
  fallback's value otherwise; a stored value under a key, such as the \<open>reminders\<close>
  object, is taken whole.
\<close>

theorem loadState_merges_top_level_keys:
  "loadState parse Unavailable fallback = fallback
     \<and> loadState parse Missing fallback = fallback
     \<and> loadState parse (Item []) fallback = fallback
     \<and> (parse raw = Inl err \<longrightarrow> loadState parse (Item raw) fallback = fallback)
     \<and> (raw \<noteq> [] \<and> parse raw = Inr v \<longrightarrow>
           getProp (loadState parse (Item raw) fallback) k
             = (case storedProp v k of Some x \<Rightarrow> Some x | None \<Rightarrow> getProp fallback k))"
  by (simp add: loadState_fallback loadState_parsed getProp_spread)

theorem loadState_merges_top_level_keys_witness:
  "storedText \<noteq> [] \<and> parseStored storedText = Inr storedValue
     \<and> parseStored ''{'' = Inl SyntaxError
     \<and> loadState parseStored (Item ''{'') DEFAULT_CYCLE = DEFAULT_CYCLE
     \<and> getProp (loadState parseStored (Item storedText) DEFAULT_CYCLE) ''theme''
          = Some (JStr ''dark'')
     \<and> getProp (loadState parseStored (Item storedText) DEFAULT_CYCLE) ''hourFormat''
          = Some (JStr ''12h'')"
proof -
  have a: "storedText \<noteq> [] \<and> parseStored storedText = Inr storedValue"
    by (simp add: storedText_nonempty parseStored_def)
  have b: "parseStored ''{'' = Inl SyntaxError"
    by (simp add: parseStored_def storedText_def)
  have t: "storedProp storedValue ''theme'' = Some (JStr ''dark'')"
    "storedProp storedValue ''hourFormat'' = None"
    by (simp_all add: storedProp_def storedValue_def ownProps_def)
  have f: "getProp DEFAULT_CYCLE ''hourFormat'' = Some (JStr ''12h'')"
    by (simp add: getProp_def DEFAULT_CYCLE_def)
  note m = loadState_merges_top_level_keys
  from m [of parseStored DEFAULT_CYCLE "''{''" SyntaxError storedValue "''theme''"] b
  have 1: "loadState parseStored (Item ''{'') DEFAULT_CYCLE = DEFAULT_CYCLE" by simp
  from m [of parseStored DEFAULT_CYCLE storedText SyntaxError storedValue "''theme''"] a t
  have 2: "getProp (loadState parseStored (Item storedText) DEFAULT_CYCLE) ''theme''
          = Some (JStr ''dark'')" by simp
  from m [of parseStored DEFAULT_CYCLE storedText SyntaxError storedValue "''hourFormat''"] a t f
  have 3: "getProp (loadState parseStored (Item storedText) DEFAULT_CYCLE) ''hourFormat''
          = Some (JStr ''12h'')" by simp
  show ?thesis using a b 1 2 3 by simp
qed

text \<open>
  C6. For a window with \<open>end > start\<close> and any instant \<open>now\<close>, the elapsed fraction is
  the clamped elapsed time divided by the window length, and lies in \<open>[0, 1]\<close>.
\<close>

theorem progress_fraction_bounds:
  assumes "start < end"
  shows "\<exists>q. progress (computeProgress start end now) = Num q
            \<and> q = of_int (clamp (now - start) 0 (end - start)) / of_int (end - start)
            \<and> 0 \<le> q \<and> q \<le> 1"
proof -
  let ?t = "end - start"
  let ?e = "clamp (now - start) 0 ?t"
  from assms have t: "0 < ?t" by simp
  then have e: "0 \<le> ?e" "?e \<le> ?t" using clamp_bounds [of 0 ?t "now - start"] by simp_all
  have p: "progress (computeProgress start end now) = Num (of_int ?e / of_int ?t)"
    using t by (simp add: computeProgress_def js_div_def Let_def)
  have "(0::rat) \<le> of_int ?e / of_int ?t" using e t by simp
  moreover have "(of_int ?e / of_int ?t :: rat) \<le> 1" using e t by simp
  ultimately show ?thesis using p by simp
qed

theorem progress_fraction_bounds_witness:
  "(0::int) < 1000 \<and> progress (computeProgress 0 1000 5000000) = Num 1
     \<and> progress (computeProgress 0 1000 (- 5000000)) = Num 0
     \<and> progress (computeProgress 0 1000 250) = Num (1 / 4)"
proof -
  have h: "(0::int) < 1000" by simp
  have a: "clamp (5000000 - 0) 0 (1000 - 0) = 1000" by (simp add: clamp_def)
  have b: "clamp (- 5000000 - 0) 0 (1000 - 0) = 0" by (simp add: clamp_def)
  have c: "clamp (250 - 0) 0 (1000 - 0) = 250" by (simp add: clamp_def)
  from progress_fraction_bounds [OF h, of 5000000] a
  have 1: "progress (computeProgress 0 1000 5000000) = Num 1" by auto
  from progress_fraction_bounds [OF h, of "- 5000000"] b
  have 2: "progress (computeProgress 0 1000 (- 5000000)) = Num 0" by auto
  from progress_fraction_bounds [OF h, of 250] c
  have 3: "progress (computeProgress 0 1000 250) = Num (1 / 4)" by auto
  show ?thesis using h 1 2 3 by simp
qed

text \<open>
  C7. For a fixed cycle with \<open>endISO > startISO\<close> (in a zone whose offsets stay within a
  day of UTC) and instants \<open>now1 < now2\<close>, both resolutions return, and the start
  resolved at \<open>now2\<close> is not earlier than the start resolved at \<open>now1\<close>.
\<close>

theorem rollover_monotone:
  assumes "zoneBounded (timezone cycle)" and "startISO cycle < endISO cycle"
    and "now1 < now2"
  shows "\<exists>w1 w2. rollCycleToNow cycle now1 = Some w1 \<and> rollCycleToNow cycle now2 = Some w2
           \<and> w_start w1 \<le> w_start w2"
proof (cases "now1 < startISO cycle")
  case True
  then have r1: "rollCycleToNow cycle now1
      = Some \<lparr> w_start = startISO cycle, w_end = endISO cycle, w_rolled = False \<rparr>"
    by (simp add: rollCycleToNow_def)
  obtain w2 where w2: "rollCycleToNow cycle now2 = Some w2" "startISO cycle \<le> w_start w2"
    using rollCycleToNow_start_lower [OF assms(1), of now2] assms(2) by auto
  show ?thesis using r1 w2 by simp
next
  case False
  then have ge: "\<not> now1 < startISO cycle" "\<not> now2 < startISO cycle"
    using assms(3) by simp_all
  have le: "now1 \<le> now2" "startISO cycle \<le> endISO cycle" using assms(2,3) by simp_all
  from rollLoop_mono [OF assms(1) le, of False False]
  show ?thesis using ge by (simp add: rollCycleToNow_def)
qed

theorem rollover_monotone_witness:
  "zoneBounded (timezone defaultCycle) \<and> startISO defaultCycle < endISO defaultCycle
     \<and> (1755749700000::int) < 1758737700000
     \<and> rollCycleToNow defaultCycle 1755749700000
          = Some \<lparr> w_start = 1755653580000, w_end = 1758331980000, w_rolled = False \<rparr>
     \<and> rollCycleToNow defaultCycle 1758737700000
          = Some \<lparr> w_start = 1758331980000, w_end = 1760923980000, w_rolled = True \<rparr>
     \<and> (1755653580000::int) \<le> 1758331980000"
proof -
  have z: "zoneBounded (timezone defaultCycle)"
    by (simp add: defaultCycle_def zoneBounded_kathmandu)
  have lt: "startISO defaultCycle < endISO defaultCycle" by (simp add: defaultCycle_def)
  have n: "(1755749700000::int) < 1758737700000" by simp
  obtain w1 w2 where w: "rollCycleToNow defaultCycle 1755749700000 = Some w1"
      "rollCycleToNow defaultCycle 1758737700000 = Some w2" "w_start w1 \<le> w_start w2"
    using rollover_monotone [OF z lt n] by blast
  have "w_start w1 = 1755653580000" "w_start w2 = 1758331980000"
    using w(1,2) roll_default_scenario_A roll_default_scenario_B by auto
  then have "(1755653580000::int) \<le> 1758331980000" using w(3) by simp
  then show ?thesis using z lt roll_default_scenario_A roll_default_scenario_B by simp
qed

text \<open>
  C8. The effect runs, is cleaned up and runs again with the same milestones, flags and
  clock while the permission request is pending (\<open>Notification.permission\<close> is
  \<open>default\<close>); then the suspended calls continue. One run leaves four timeouts, one per
  key. Two runs leave eight, two per key: the calls suspended by the first run set their
  timeouts after the cleanup, \<open>timers.current\<close> ends with the ids of the second run
  only, and a later cleanup clears those and leaves the four timeouts of the first run.
  With the permission granted the same two runs leave four timeouts.
\<close>

theorem rearm_twice_while_permission_pending:
  "map (\<lambda>t. (t_id t, t_key t)) (browser_timeouts ((resume 1755653582000 ^^ 4)
       (remindersEffect (\<lambda>_. True) kathmandu 1755653580000 1758331980000 PermissionDefault
          (\<lambda>_. 1755653581000) initialScheduler)))
     = [(1, Halfway), (2, ThreeDays), (3, LastDay), (4, Renewal)]
   \<and> map (\<lambda>t. (t_id t, t_key t)) (browser_timeouts ((resume 1755653582000 ^^ 8)
       (remindersEffect (\<lambda>_. True) kathmandu 1755653580000 1758331980000 PermissionDefault
          (\<lambda>_. 1755653581000)
          (remindersCleanup
             (remindersEffect (\<lambda>_. True) kathmandu 1755653580000 1758331980000
                PermissionDefault (\<lambda>_. 1755653581000) initialScheduler)))))
     = [(1, Halfway), (2, ThreeDays), (3, LastDay), (4, Renewal),
        (5, Halfway), (6, ThreeDays), (7, LastDay), (8, Renewal)]
   \<and> timers_current ((resume 1755653582000 ^^ 8)
       (remindersEffect (\<lambda>_. True) kathmandu 1755653580000 1758331980000 PermissionDefault
          (\<lambda>_. 1755653581000)
          (remindersCleanup
             (remindersEffect (\<lambda>_. True) kathmandu 1755653580000 1758331980000
                PermissionDefault (\<lambda>_. 1755653581000) initialScheduler))))
     = [(Halfway, 5), (ThreeDays, 6), (LastDay, 7), (Renewal, 8)]
   \<and> map (\<lambda>t. (t_id t, t_key t)) (browser_timeouts (remindersCleanup
       ((resume 1755653582000 ^^ 8)
       (remindersEffect (\<lambda>_. True) kathmandu 1755653580000 1758331980000 PermissionDefault
          (\<lambda>_. 1755653581000)
          (remindersCleanup
             (remindersEffect (\<lambda>_. True) kathmandu 1755653580000 1758331980000
                PermissionDefault (\<lambda>_. 1755653581000) initialScheduler))))))
     = [(1, Halfway), (2, ThreeDays), (3, LastDay), (4, Renewal)]
   \<and> map (\<lambda>t. (t_id t, t_key t)) (browser_timeouts
       (remindersEffect (\<lambda>_. True) kathmandu 1755653580000 1758331980000 PermissionGranted
          (\<lambda>_. 1755653581000)
          (remindersCleanup
             (remindersEffect (\<lambda>_. True) kathmandu 1755653580000 1758331980000
                PermissionGranted (\<lambda>_. 1755653581000) initialScheduler))))
     = [(5, Halfway), (6, ThreeDays), (7, LastDay), (8, Renewal)]"
  by code_simp

text \<open>
  C9. The check of the instant against the clock is made before the call of \<open>schedule\<close>
  awaits the permission request, and the timeout is set after it. In the default window
  with the permission pending, the effect runs one second before the halfway instant: the
  call for the halfway reminder passes the check with a delay of one second and suspends.
  The request settles an hour later, when the halfway instant is an hour in the past, and
  the call sets its timeout with the delay of one second: a timeout for a milestone that is
  past when it is armed. With the permission granted, an effect that runs at that later
  time sets no timeout for the halfway reminder.
\<close>

theorem past_milestone_armed_after_pending_permission:
  "milestoneAt (milestoneTimes kathmandu 1755653580000 1758331980000) Halfway
       = of_int 1756992780000
     \<and> armed (remindersEffect (\<lambda>_. True) kathmandu 1755653580000 1758331980000
          PermissionDefault (\<lambda>_. 1756992779000) initialScheduler) = []
     \<and> awaitingFor Halfway (remindersEffect (\<lambda>_. True) kathmandu 1755653580000
          1758331980000 PermissionDefault (\<lambda>_. 1756992779000) initialScheduler)
         = [(Halfway, 1000)]
     \<and> (1756992780000 :: int) \<le> 1756996380000
     \<and> armedFor Halfway (resume 1756996380000
          (remindersEffect (\<lambda>_. True) kathmandu 1755653580000 1758331980000
             PermissionDefault (\<lambda>_. 1756992779000) initialScheduler))
         = [(Halfway, 1756996380000, 1000)]
     \<and> armedFor Halfway (remindersEffect (\<lambda>_. True) kathmandu 1755653580000 1758331980000
          PermissionGranted (\<lambda>_. 1756996380000) initialScheduler) = []"
  by code_simp

text \<open>
  C10. The effect reads only the wall clock. Two runs of the component whose \<open>now\<close>
  differs (as under the QA override) but whose resolved windows have the same bounds,
  with the same cycle, wall-clock readings, permission and scheduler state, leave the
  same scheduler state; the timeouts set and their delays are given by the window, the
  flags and the wall-clock readings alone.
\<close>

theorem arming_independent_of_component_now:
  assumes "rollCycleToNow cycle (useNowTick_init qaMode1 qa1 wall) = Some w1"
    and "rollCycleToNow cycle (useNowTick_init qaMode2 qa2 wall) = Some w2"
    and "w_start w1 = w_start w2" and "w_end w1 = w_end w2"
  shows "appReminders cycle (useNowTick_init qaMode1 qa1 wall) perm clock st
           = appReminders cycle (useNowTick_init qaMode2 qa2 wall) perm clock st
         \<and> (\<exists>st'. appReminders cycle (useNowTick_init qaMode2 qa2 wall) perm clock st = Some st'
               \<and> armed st' = armed (clearTimeouts st)
                   @ newTimer (reminders cycle) perm clock (timezone cycle)
                       (w_start w1) (w_end w1) Halfway
                   @ newTimer (reminders cycle) perm clock (timezone cycle)
                       (w_start w1) (w_end w1) ThreeDays
                   @ newTimer (reminders cycle) perm clock (timezone cycle)
                       (w_start w1) (w_end w1) LastDay
                   @ newTimer (reminders cycle) perm clock (timezone cycle)
                       (w_start w1) (w_end w1) Renewal)"
  using assms by (simp add: appReminders_def remindersEffect_armed)

theorem arming_independent_of_component_now_witness:
  "rollCycleToNow defaultCycle (useNowTick_init False None 1755749700000)
       = Some \<lparr> w_start = 1755653580000, w_end = 1758331980000, w_rolled = False \<rparr>
     \<and> rollCycleToNow defaultCycle (useNowTick_init True (Some 1756664100000) 1755749700000)
       = Some \<lparr> w_start = 1755653580000, w_end = 1758331980000, w_rolled = False \<rparr>
     \<and> appReminders defaultCycle (useNowTick_init False None 1755749700000)
           PermissionGranted (\<lambda>_. 1755749700000) initialScheduler
         = appReminders defaultCycle (useNowTick_init True (Some 1756664100000) 1755749700000)
           PermissionGranted (\<lambda>_. 1755749700000) initialScheduler"
proof -
  let ?w = "\<lparr> w_start = 1755653580000, w_end = 1758331980000, w_rolled = False \<rparr>"
  have a: "rollCycleToNow defaultCycle (useNowTick_init False None 1755749700000) = Some ?w"
    by (simp add: useNowTick_init_def rollCycleToNow_def defaultCycle_def rollLoop_stop)
  have b: "rollCycleToNow defaultCycle (useNowTick_init True (Some 1756664100000) 1755749700000)
             = Some ?w"
    by (simp add: useNowTick_init_def rollCycleToNow_def defaultCycle_def rollLoop_stop)
  from arming_independent_of_component_now [OF a b, of PermissionGranted
      "\<lambda>_. 1755749700000" initialScheduler]
  show ?thesis using a b by simp
qed

end
